theory Spec2Isabelle
  imports Complex_Main "HOL-Library.Multiset"
begin

section \<open>JavaScript numbers\<close>

text \<open>
  The source is TypeScript; every \<^verbatim>\<open>number\<close> is an IEEE double. The model keeps the
  special values of a double apart from the finite ones and computes on the finite ones
  exactly: a finite number is a real, and the three values \<open>NaN\<close>, \<open>Infinity\<close>,
  \<open>-Infinity\<close> follow the rules of the language (a \<open>NaN\<close> operand gives \<open>NaN\<close>,
  \<open>x / 0\<close> is an infinity or \<open>NaN\<close>, every comparison with \<open>NaN\<close> is false).
  Rounding and the sign of zero are not modelled.

  Array indices, loop counters and array lengths are natural numbers.
\<close>

datatype jsnum = Num real | PInf | NInf | NaN

fun js_neg :: "jsnum \<Rightarrow> jsnum" where
  "js_neg (Num a) = Num (- a)"
| "js_neg PInf = NInf"
| "js_neg NInf = PInf"
| "js_neg NaN = NaN"

fun js_add :: "jsnum \<Rightarrow> jsnum \<Rightarrow> jsnum" where
  "js_add (Num a) (Num b) = Num (a + b)"
| "js_add NaN _ = NaN"
| "js_add _ NaN = NaN"
| "js_add PInf NInf = NaN"
| "js_add NInf PInf = NaN"
| "js_add PInf _ = PInf"
| "js_add _ PInf = PInf"
| "js_add NInf _ = NInf"
| "js_add _ NInf = NInf"

definition js_sub :: "jsnum \<Rightarrow> jsnum \<Rightarrow> jsnum" where
  "js_sub a b = js_add a (js_neg b)"

text \<open>The sign of a product or quotient with an infinite operand.\<close>

definition signed_inf :: "bool \<Rightarrow> jsnum" where
  "signed_inf positive = (if positive then PInf else NInf)"

fun js_mul :: "jsnum \<Rightarrow> jsnum \<Rightarrow> jsnum" where
  "js_mul (Num a) (Num b) = Num (a * b)"
| "js_mul NaN _ = NaN"
| "js_mul _ NaN = NaN"
| "js_mul (Num a) PInf = (if a = 0 then NaN else signed_inf (0 < a))"
| "js_mul (Num a) NInf = (if a = 0 then NaN else signed_inf (a < 0))"
| "js_mul PInf (Num b) = (if b = 0 then NaN else signed_inf (0 < b))"
| "js_mul NInf (Num b) = (if b = 0 then NaN else signed_inf (b < 0))"
| "js_mul PInf PInf = PInf"
| "js_mul NInf NInf = PInf"
| "js_mul PInf NInf = NInf"
| "js_mul NInf PInf = NInf"

fun js_div :: "jsnum \<Rightarrow> jsnum \<Rightarrow> jsnum" where
  "js_div (Num a) (Num b) =
     (if b = 0 then (if a = 0 then NaN else signed_inf (0 < a)) else Num (a / b))"
| "js_div NaN _ = NaN"
| "js_div _ NaN = NaN"
| "js_div (Num a) PInf = Num 0"
| "js_div (Num a) NInf = Num 0"
| "js_div PInf (Num b) = signed_inf (0 \<le> b)"
| "js_div NInf (Num b) = signed_inf (b < 0)"
| "js_div PInf PInf = NaN"
| "js_div PInf NInf = NaN"
| "js_div NInf PInf = NaN"
| "js_div NInf NInf = NaN"

text \<open>\<^verbatim>\<open>a < b\<close> and \<^verbatim>\<open>a >= b\<close>: both are false when an operand is \<open>NaN\<close>.\<close>

fun js_lt :: "jsnum \<Rightarrow> jsnum \<Rightarrow> bool" where
  "js_lt (Num a) (Num b) = (a < b)"
| "js_lt NaN _ = False"
| "js_lt _ NaN = False"
| "js_lt PInf _ = False"
| "js_lt _ NInf = False"
| "js_lt _ PInf = True"
| "js_lt NInf _ = True"

fun js_ge :: "jsnum \<Rightarrow> jsnum \<Rightarrow> bool" where
  "js_ge NaN _ = False"
| "js_ge _ NaN = False"
| "js_ge a b = (\<not> js_lt a b)"

text \<open>\<^verbatim>\<open>Math.min\<close> and \<^verbatim>\<open>Math.max\<close> of two arguments.\<close>

fun Math_min :: "jsnum \<Rightarrow> jsnum \<Rightarrow> jsnum" where
  "Math_min NaN _ = NaN"
| "Math_min _ NaN = NaN"
| "Math_min a b = (if js_lt b a then b else a)"

fun Math_max :: "jsnum \<Rightarrow> jsnum \<Rightarrow> jsnum" where
  "Math_max NaN _ = NaN"
| "Math_max _ NaN = NaN"
| "Math_max a b = (if js_lt a b then b else a)"

fun Math_floor :: "jsnum \<Rightarrow> jsnum" where
  "Math_floor (Num a) = Num (of_int \<lfloor>a\<rfloor>)"
| "Math_floor x = x"

text \<open>\<^verbatim>\<open>a % b\<close>: the remainder has the sign of the dividend (truncated division).\<close>

definition trunc :: "real \<Rightarrow> int" where
  "trunc a = (if 0 \<le> a then \<lfloor>a\<rfloor> else \<lceil>a\<rceil>)"

fun js_mod :: "jsnum \<Rightarrow> jsnum \<Rightarrow> jsnum" where
  "js_mod (Num a) (Num b) = (if b = 0 then NaN else Num (a - b * of_int (trunc (a / b))))"
| "js_mod (Num a) PInf = Num a"
| "js_mod (Num a) NInf = Num a"
| "js_mod _ _ = NaN"

text \<open>\<^verbatim>\<open>Math.pow(x, n)\<close> for a natural exponent \<open>n\<close>.\<close>

definition Math_pow :: "jsnum \<Rightarrow> nat \<Rightarrow> jsnum" where
  "Math_pow x n =
     (if n = 0 then Num 1
      else case x of
        Num a \<Rightarrow> Num (a ^ n)
      | PInf \<Rightarrow> PInf
      | NInf \<Rightarrow> (if odd n then NInf else PInf)
      | NaN \<Rightarrow> NaN)"

text \<open>
  Conversion of a number to a string (\<^verbatim>\<open>toString()\<close> and template literals). The
  finite numbers this program converts are results of \<^verbatim>\<open>Math.floor\<close>; an integer
  below \<open>10\<^sup>2\<^sup>1\<close> in magnitude prints as its decimal digits. Fraction digits and
  exponent notation are not modelled: a finite number prints as the digits of its floor.
\<close>

fun digits :: "nat \<Rightarrow> string" where
  "digits n = (if n < 10 then [''0123456789'' ! n] else digits (n div 10) @ [''0123456789'' ! (n mod 10)])"

declare digits.simps [simp del]

definition toString :: "jsnum \<Rightarrow> string" where
  "toString x =
     (case x of
        Num a \<Rightarrow> (if \<lfloor>a\<rfloor> < 0 then ''-'' @ digits (nat (- \<lfloor>a\<rfloor>)) else digits (nat \<lfloor>a\<rfloor>))
      | PInf \<Rightarrow> ''Infinity''
      | NInf \<Rightarrow> ''-Infinity''
      | NaN \<Rightarrow> ''NaN'')"

text \<open>\<^verbatim>\<open>s.padStart(n, c)\<close> with a one-character filler.\<close>

definition padStart :: "string \<Rightarrow> nat \<Rightarrow> char \<Rightarrow> string" where
  "padStart s n c = replicate (n - length s) c @ s"

section \<open>The easing function\<close>

text \<open>
  \<^verbatim>\<open>
  private easeInOutCubic(t: number): number {
    return t < 0.5 ? 4 * t * t * t : 1 - Math.pow(-2 * t + 2, 3) / 2;
  }
  \<close>
\<close>

definition easeInOutCubic :: "jsnum \<Rightarrow> jsnum" where
  "easeInOutCubic t =
     (if js_lt t (Num 0.5)
      then js_mul (js_mul (js_mul (Num 4) t) t) t
      else js_sub (Num 1) (js_div (Math_pow (js_add (js_mul (Num (- 2)) t) (Num 2)) 3) (Num 2)))"


section \<open>Data model\<close>

text \<open>
  The bitmap of a piece: an own canvas of the given size into which one rectangle of the
  source image was drawn (\<open>srcX\<close>, \<open>srcY\<close>, \<open>srcW\<close>, \<open>srcH\<close>). The dimensions are kept
  as the numbers the code assigns to them (the page keeps the integer part).
\<close>

record PieceCanvas =
  pcWidth :: jsnum
  pcHeight :: jsnum
  srcX :: jsnum
  srcY :: jsnum
  srcW :: jsnum
  srcH :: jsnum

text \<open>\<^verbatim>\<open>interface JigsawPiece\<close>; the field \<^verbatim>\<open>canvas\<close> is \<open>pieceCanvas\<close> here.\<close>

record JigsawPiece =
  pieceCanvas :: PieceCanvas
  originalX :: jsnum
  originalY :: jsnum
  currentX :: jsnum
  currentY :: jsnum
  width :: jsnum
  height :: jsnum
  solved :: bool
  rotation :: jsnum

text \<open>
  \<^verbatim>\<open>Required<JigsawOptions>\<close> without \<^verbatim>\<open>image\<close> and \<^verbatim>\<open>container\<close>: the image is
  the record below (field \<open>imageElement\<close> of the puzzle), the container is the page.
  \<open>rows\<close> and \<open>cols\<close> bound loop counters and are natural numbers, as are the width and
  height of an image.
\<close>

record JigsawOptions =
  rows :: nat
  cols :: nat
  totalDuration :: jsnum
  maxRotation :: jsnum
  maxWidth :: jsnum
  maxHeight :: jsnum

record HTMLImageElement =
  imageWidth :: nat
  imageHeight :: nat

text \<open>The calls the code makes on the 2D context of the main canvas.\<close>

datatype ctx_op =
    ClearRect jsnum jsnum jsnum jsnum
  | Save
  | Restore
  | Translate jsnum jsnum
  | Rotate jsnum
  | DrawImage PieceCanvas jsnum jsnum

text \<open>
  \<^verbatim>\<open>class JigsawPuzzle\<close>. \<open>canvasWidth\<close> and \<open>canvasHeight\<close> are the width and height
  of the main canvas, kept as the numbers the code assigns to them (the page keeps the
  integer part). \<open>ctx\<close> is the sequence of calls made on the context so far,
  oldest first; \<open>timerText\<close> is \<^verbatim>\<open>timerElement.textContent\<close>. The last two fields are
  the host's side of \<^verbatim>\<open>requestAnimationFrame\<close>: the identifiers of the callbacks that
  are requested and have neither run nor been cancelled, and the next identifier.
\<close>

record JigsawPuzzle =
  options :: JigsawOptions
  imageElement :: HTMLImageElement
  canvasWidth :: jsnum
  canvasHeight :: jsnum
  ctx :: "ctx_op list"
  pieces :: "JigsawPiece list"
  animationFrameId :: "nat option"
  animationStartTime :: jsnum
  timerText :: string
  solvingOrder :: "nat list"
  currentSolvingIndex :: nat
  pieceMoveDuration :: jsnum
  scaleFactor :: jsnum
  pendingFrames :: "nat list"
  nextFrameId :: nat

datatype error =
    ImageLoadFailed
  | NoCanvasContext
  | TypeError

section \<open>Image scaler\<close>

text \<open>
  \<^verbatim>\<open>
  const widthRatio = maxWidth / this.image.width;
  const heightRatio = maxHeight / this.image.height;
  this.scaleFactor = Math.min(widthRatio, heightRatio, 1);
  \<close>
\<close>

definition calculateScaleFactor :: "JigsawPuzzle \<Rightarrow> JigsawPuzzle" where
  "calculateScaleFactor this =
     (let widthRatio = js_div (maxWidth (options this)) (Num (real (imageWidth (imageElement this))));
          heightRatio = js_div (maxHeight (options this)) (Num (real (imageHeight (imageElement this))))
      in this\<lparr>scaleFactor := Math_min (Math_min widthRatio heightRatio) (Num 1)\<rparr>)"

text \<open>
  \<open>setupCanvas\<close> throws when the main canvas gives no 2D context (\<open>ctxOk\<close> false).
\<close>

definition setupCanvas :: "bool \<Rightarrow> JigsawPuzzle \<Rightarrow> error + JigsawPuzzle" where
  "setupCanvas ctxOk this =
     (let this1 = this\<lparr>canvasWidth := js_mul (Num (real (imageWidth (imageElement this)))) (scaleFactor this),
                       canvasHeight := js_mul (Num (real (imageHeight (imageElement this)))) (scaleFactor this)\<rparr>
      in if \<not> ctxOk then Inl NoCanvasContext else Inr (this1\<lparr>ctx := []\<rparr>))"

section \<open>Piece slicer\<close>

text \<open>The body of the inner loop of \<open>createPuzzlePieces\<close> for one cell.\<close>

definition makePiece :: "JigsawPuzzle \<Rightarrow> nat \<Rightarrow> nat \<Rightarrow> JigsawPiece" where
  "makePiece this row col =
     (let originalPieceWidth = js_div (Num (real (imageWidth (imageElement this)))) (Num (real (cols (options this))));
          originalPieceHeight = js_div (Num (real (imageHeight (imageElement this)))) (Num (real (rows (options this))));
          scaledPieceWidth = js_mul originalPieceWidth (scaleFactor this);
          scaledPieceHeight = js_mul originalPieceHeight (scaleFactor this)
      in \<lparr>pieceCanvas = \<lparr>pcWidth = scaledPieceWidth, pcHeight = scaledPieceHeight,
                          srcX = js_mul (Num (real col)) originalPieceWidth,
                          srcY = js_mul (Num (real row)) originalPieceHeight,
                          srcW = originalPieceWidth, srcH = originalPieceHeight\<rparr>,
          originalX = js_mul (Num (real col)) scaledPieceWidth,
          originalY = js_mul (Num (real row)) scaledPieceHeight,
          currentX = js_mul (Num (real col)) scaledPieceWidth,
          currentY = js_mul (Num (real row)) scaledPieceHeight,
          width = scaledPieceWidth,
          height = scaledPieceHeight,
          solved = False,
          rotation = Num 0\<rparr>)"

text \<open>
  The two nested counting loops, row by row. \<open>pieceCtxOk row col\<close> says whether the canvas
  of that cell gave a 2D context; the code skips the cell otherwise
  (\<^verbatim>\<open>if (!pieceCtx) continue;\<close>).
\<close>

definition createPuzzlePieces :: "(nat \<Rightarrow> nat \<Rightarrow> bool) \<Rightarrow> JigsawPuzzle \<Rightarrow> JigsawPuzzle" where
  "createPuzzlePieces pieceCtxOk this =
     this\<lparr>pieces := pieces this @
        concat (map (\<lambda>row. map (makePiece this row) (filter (pieceCtxOk row) [0..<cols (options this)]))
                    [0..<rows (options this)])\<rparr>"

section \<open>Shuffle generator\<close>

text \<open>
  \<open>random k\<close> is the result of the \<open>k\<close>-th call of \<^verbatim>\<open>Math.random()\<close> (counted from 0), a
  finite number \<open>r\<close> with \<open>0 \<le> r < 1\<close>. The piece at index \<open>i\<close> takes the calls \<open>3i\<close>,
  \<open>3i + 1\<close> and \<open>3i + 2\<close>.
\<close>

definition shufflePiece :: "JigsawPuzzle \<Rightarrow> (nat \<Rightarrow> real) \<Rightarrow> nat \<Rightarrow> JigsawPiece \<Rightarrow> JigsawPiece" where
  "shufflePiece this random i piece =
     piece\<lparr>currentX := js_sub (js_mul (Num (random (3 * i))) (js_mul (canvasWidth this) (Num 1.5)))
                              (js_mul (canvasWidth this) (Num 0.25)),
           currentY := js_sub (js_mul (Num (random (3 * i + 1))) (js_mul (canvasHeight this) (Num 1.5)))
                              (js_mul (canvasHeight this) (Num 0.25)),
           rotation := js_mul (js_sub (js_mul (Num (random (3 * i + 2))) (Num 2)) (Num 1))
                              (maxRotation (options this))\<rparr>"

definition shufflePieces :: "(nat \<Rightarrow> real) \<Rightarrow> JigsawPuzzle \<Rightarrow> JigsawPuzzle" where
  "shufflePieces random this =
     this\<lparr>pieces := map (\<lambda>i. shufflePiece this random i (pieces this ! i)) [0..<length (pieces this)]\<rparr>"

section \<open>Solving scheduler\<close>

text \<open>
  \<^verbatim>\<open>
  for (let i = this.solvingOrder.length - 1; i > 0; i--) {
    const j = Math.floor(Math.random() * (i + 1));
    [this.solvingOrder[i], this.solvingOrder[j]] = [this.solvingOrder[j], this.solvingOrder[i]];
  }
  \<close>
  \<open>shuffleLoop random k i xs\<close> runs the loop from counter \<open>i\<close> on the array \<open>xs\<close>, when
  \<open>k\<close> calls of \<^verbatim>\<open>Math.random()\<close> have been made. With \<open>0 \<le> random k < 1\<close> the index
  \<open>j\<close> is at most \<open>i\<close>, so both indices of the exchange lie in the array. For an empty
  array the counter starts at -1 in the source and at 0 here; the loop body does not run
  in either case.
\<close>

fun shuffleLoop :: "(nat \<Rightarrow> real) \<Rightarrow> nat \<Rightarrow> nat \<Rightarrow> nat list \<Rightarrow> nat list" where
  "shuffleLoop random k 0 xs = xs"
| "shuffleLoop random k (Suc i') xs =
     (let i = Suc i';
          j = nat \<lfloor>random k * real (i + 1)\<rfloor>
      in shuffleLoop random (k + 1) i' (xs[i := xs ! j, j := xs ! i]))"

definition setupSolvingOrder :: "(nat \<Rightarrow> real) \<Rightarrow> JigsawPuzzle \<Rightarrow> JigsawPuzzle" where
  "setupSolvingOrder random this =
     this\<lparr>solvingOrder := shuffleLoop random 0 (length (pieces this) - 1) [0..<length (pieces this)],
          pieceMoveDuration := js_div (totalDuration (options this)) (Num (real (length (pieces this))))\<rparr>"

section \<open>Countdown\<close>

text \<open>
  \<^verbatim>\<open>
  const remaining = Math.max(0, this.options.totalDuration - elapsed);
  const minutes = Math.floor(remaining / 60000);
  const seconds = Math.floor((remaining % 60000) / 1000);
  this.timerElement.textContent = `${minutes}:${seconds.toString().padStart(2, '0')}`;
  \<close>
\<close>

definition timerRemaining :: "JigsawPuzzle \<Rightarrow> jsnum \<Rightarrow> jsnum" where
  "timerRemaining this elapsed = Math_max (Num 0) (js_sub (totalDuration (options this)) elapsed)"

definition timerMinutes :: "JigsawPuzzle \<Rightarrow> jsnum \<Rightarrow> jsnum" where
  "timerMinutes this elapsed = Math_floor (js_div (timerRemaining this elapsed) (Num 60000))"

definition timerSeconds :: "JigsawPuzzle \<Rightarrow> jsnum \<Rightarrow> jsnum" where
  "timerSeconds this elapsed =
     Math_floor (js_div (js_mod (timerRemaining this elapsed) (Num 60000)) (Num 1000))"

definition updateTimer :: "JigsawPuzzle \<Rightarrow> jsnum \<Rightarrow> JigsawPuzzle" where
  "updateTimer this elapsed =
     this\<lparr>timerText := toString (timerMinutes this elapsed) @ '':'' @
                        padStart (toString (timerSeconds this elapsed)) 2 (CHR ''0'')\<rparr>"


section \<open>Animation driver\<close>

text \<open>
  \<^verbatim>\<open>
  ctx.save();
  ctx.translate(x + image.width / 2, y + image.height / 2);
  ctx.rotate(angle * Math.PI / 180);
  ctx.drawImage(image, -image.width / 2, -image.height / 2);
  ctx.restore();
  \<close>
\<close>

definition drawRotatedImage :: "PieceCanvas \<Rightarrow> jsnum \<Rightarrow> jsnum \<Rightarrow> jsnum \<Rightarrow> ctx_op list" where
  "drawRotatedImage img x y angle =
     [Save,
      Translate (js_add x (js_div (pcWidth img) (Num 2))) (js_add y (js_div (pcHeight img) (Num 2))),
      Rotate (js_div (js_mul angle (Num pi)) (Num 180)),
      DrawImage img (js_div (js_neg (pcWidth img)) (Num 2)) (js_div (js_neg (pcHeight img)) (Num 2)),
      Restore]"

text \<open>The body of the first \<^verbatim>\<open>forEach\<close> of \<open>animate\<close>: the calls that draw one piece.\<close>

definition drawPiece :: "JigsawPiece \<Rightarrow> ctx_op list" where
  "drawPiece piece =
     (if solved piece
      then [DrawImage (pieceCanvas piece) (originalX piece) (originalY piece)]
      else drawRotatedImage (pieceCanvas piece) (currentX piece) (currentY piece) (rotation piece))"

text \<open>The body of the last \<^verbatim>\<open>forEach\<close> of \<open>animate\<close>.\<close>

definition drawHome :: "JigsawPiece \<Rightarrow> ctx_op" where
  "drawHome piece = DrawImage (pieceCanvas piece) (originalX piece) (originalY piece)"

text \<open>
  \<^verbatim>\<open>requestAnimationFrame\<close> hands out a fresh identifier and queues the callback;
  \<^verbatim>\<open>cancelAnimationFrame\<close> removes a queued callback.
\<close>

definition requestAnimationFrame :: "JigsawPuzzle \<Rightarrow> nat \<times> JigsawPuzzle" where
  "requestAnimationFrame this =
     (nextFrameId this,
      this\<lparr>pendingFrames := pendingFrames this @ [nextFrameId this],
           nextFrameId := nextFrameId this + 1\<rparr>)"

definition cancelAnimationFrame :: "nat \<Rightarrow> JigsawPuzzle \<Rightarrow> JigsawPuzzle" where
  "cancelAnimationFrame fid this = this\<lparr>pendingFrames := removeAll fid (pendingFrames this)\<rparr>"

text \<open>\<open>now\<close> is the value of \<^verbatim>\<open>performance.now()\<close>.\<close>

definition startAnimation :: "jsnum \<Rightarrow> JigsawPuzzle \<Rightarrow> JigsawPuzzle" where
  "startAnimation now this =
     (let this1 = this\<lparr>animationStartTime := now\<rparr>;
          (fid, this2) = requestAnimationFrame this1
      in this2\<lparr>animationFrameId := Some fid\<rparr>)"

text \<open>
  Lines 218 and 219 of \<open>animate\<close>:
  \<^verbatim>\<open>
  const pieceElapsed = elapsed - (this.currentSolvingIndex * this.pieceMoveDuration);
  const progress = Math.min(pieceElapsed / this.pieceMoveDuration, 1);
  \<close>
\<close>

definition pieceElapsed :: "JigsawPuzzle \<Rightarrow> jsnum \<Rightarrow> jsnum" where
  "pieceElapsed this elapsed =
     js_sub elapsed (js_mul (Num (real (currentSolvingIndex this))) (pieceMoveDuration this))"

definition progress :: "JigsawPuzzle \<Rightarrow> jsnum \<Rightarrow> jsnum" where
  "progress this elapsed =
     Math_min (js_div (pieceElapsed this elapsed) (pieceMoveDuration this)) (Num 1)"

text \<open>Lines 220 to 226: the eased draw of the active piece.\<close>

definition drawActive :: "JigsawPiece \<Rightarrow> jsnum \<Rightarrow> ctx_op list" where
  "drawActive piece prog =
     (let easedProgress = easeInOutCubic prog;
          x = js_add (currentX piece) (js_mul (js_sub (originalX piece) (currentX piece)) easedProgress);
          y = js_add (currentY piece) (js_mul (js_sub (originalY piece) (currentY piece)) easedProgress);
          rot = js_add (rotation piece) (js_mul (js_sub (Num 0) (rotation piece)) easedProgress)
      in drawRotatedImage (pieceCanvas piece) x y rot)"

text \<open>
  Lines 215 to 233. Reading a field of \<^verbatim>\<open>this.pieces[currentPieceIndex]\<close> throws a
  \<open>TypeError\<close> when the index is outside the array.
\<close>

definition solveActive :: "JigsawPuzzle \<Rightarrow> jsnum \<Rightarrow> error + JigsawPuzzle" where
  "solveActive this elapsed =
     (if currentSolvingIndex this < length (solvingOrder this) then
        (let currentPieceIndex = solvingOrder this ! currentSolvingIndex this in
         if \<not> currentPieceIndex < length (pieces this) then Inl TypeError
         else
           (let piece = pieces this ! currentPieceIndex;
                prog = progress this elapsed;
                this1 = this\<lparr>ctx := ctx this @ drawActive piece prog\<rparr>
            in if js_ge prog (Num 1)
               then Inr (this1\<lparr>pieces := (pieces this1)[currentPieceIndex := piece\<lparr>solved := True, rotation := Num 0\<rparr>],
                               currentSolvingIndex := currentSolvingIndex this1 + 1\<rparr>)
               else Inr this1))
      else Inr this)"

text \<open>
  Lines 235 to 246. \<^verbatim>\<open>if (this.animationFrameId)\<close> holds for an identifier other
  than 0.
\<close>

definition finishFrame :: "JigsawPuzzle \<Rightarrow> jsnum \<Rightarrow> JigsawPuzzle" where
  "finishFrame this elapsed =
     (if js_lt elapsed (totalDuration (options this)) then
        (let (fid, this1) = requestAnimationFrame this in this1\<lparr>animationFrameId := Some fid\<rparr>)
      else
        (let this1 = (case animationFrameId this of
                        Some fid \<Rightarrow> (if fid \<noteq> 0 then cancelAnimationFrame fid this else this)
                      | None \<Rightarrow> this);
             this2 = updateTimer this1 (totalDuration (options this1))
         in this2\<lparr>ctx := ctx this2 @ [ClearRect (Num 0) (Num 0) (canvasWidth this2) (canvasHeight this2)]
                                   @ map drawHome (pieces this2)\<rparr>))"

definition animate :: "JigsawPuzzle \<Rightarrow> jsnum \<Rightarrow> error + JigsawPuzzle" where
  "animate this currentTime =
     (let elapsed = js_sub currentTime (animationStartTime this);
          this1 = updateTimer this elapsed;
          this2 = this1\<lparr>ctx := ctx this1 @ [ClearRect (Num 0) (Num 0) (canvasWidth this1) (canvasHeight this1)]
                                   @ concat (map drawPiece (pieces this1))\<rparr>
      in case solveActive this2 elapsed of
           Inl e \<Rightarrow> Inl e
         | Inr this3 \<Rightarrow> Inr (finishFrame this3 elapsed))"

section \<open>Construction\<close>

text \<open>
  The field initialisers of the class and the constructor, with the decoded image. A
  string for \<^verbatim>\<open>image\<close> is loaded first; \<open>loaded\<close> is the result, \<open>None\<close> when the
  load fails and the promise rejects.
\<close>

definition newPuzzle :: "JigsawOptions \<Rightarrow> HTMLImageElement \<Rightarrow> JigsawPuzzle" where
  "newPuzzle opts img =
     \<lparr>options = opts, imageElement = img, canvasWidth = Num 0, canvasHeight = Num 0, ctx = [],
      pieces = [], animationFrameId = None, animationStartTime = Num 0, timerText = [],
      solvingOrder = [], currentSolvingIndex = 0, pieceMoveDuration = Num 0, scaleFactor = Num 1,
      pendingFrames = [], nextFrameId = 1\<rparr>"

text \<open>
  What \<open>init\<close> takes from outside: the loaded image, whether the main canvas and the
  canvas of each cell give a 2D context, the results of \<^verbatim>\<open>Math.random()\<close> and the
  value of \<^verbatim>\<open>performance.now()\<close>.
\<close>

record environment =
  loaded :: "HTMLImageElement option"
  mainCtxOk :: bool
  pieceCtxOk :: "nat \<Rightarrow> nat \<Rightarrow> bool"
  random :: "nat \<Rightarrow> real"
  now :: real

text \<open>The contract of \<^verbatim>\<open>Math.random()\<close>: every result lies in \<open>[0, 1)\<close>.\<close>

definition validRandom :: "(nat \<Rightarrow> real) \<Rightarrow> bool" where
  "validRandom rnd = (\<forall>k. 0 \<le> rnd k \<and> rnd k < 1)"

text \<open>
  \<open>init\<close>: scale, canvas, pieces, shuffle, timer element (styling only), solving order,
  first frame request. The shuffle makes \<open>3 * length pieces\<close> calls of
  \<^verbatim>\<open>Math.random()\<close>; the scheduler's calls come after them.
\<close>

definition init :: "JigsawOptions \<Rightarrow> environment \<Rightarrow> error + JigsawPuzzle" where
  "init opts env =
     (case loaded env of
        None \<Rightarrow> Inl ImageLoadFailed
      | Some img \<Rightarrow>
          (case setupCanvas (mainCtxOk env) (calculateScaleFactor (newPuzzle opts img)) of
             Inl e \<Rightarrow> Inl e
           | Inr this1 \<Rightarrow>
               (let this2 = createPuzzlePieces (pieceCtxOk env) this1;
                    this3 = shufflePieces (random env) this2;
                    this4 = setupSolvingOrder (\<lambda>k. random env (3 * length (pieces this3) + k)) this3
                in Inr (startAnimation (Num (now env)) this4))))"

text \<open>
  The host runs the oldest requested callback with a timestamp, which is a finite number;
  there is no frame when nothing is requested.
\<close>

definition runFrame :: "JigsawPuzzle \<Rightarrow> real \<Rightarrow> (error + JigsawPuzzle) option" where
  "runFrame this currentTime =
     (case pendingFrames this of
        [] \<Rightarrow> None
      | fid # rest \<Rightarrow> Some (animate (this\<lparr>pendingFrames := rest\<rparr>) (Num currentTime)))"

text \<open>The states of a run: the state after \<open>init\<close>, and every state a frame leaves.\<close>

inductive reachable :: "JigsawPuzzle \<Rightarrow> bool" where
  reach_init: "validRandom (random env) \<Longrightarrow> init opts env = Inr this \<Longrightarrow> reachable this"
| reach_frame: "reachable this \<Longrightarrow> runFrame this currentTime = Some (Inr this') \<Longrightarrow> reachable this'"

section \<open>Fisher--Yates, as the specification words it\<close>

text \<open>
  The specification names the algorithm of the scheduler: Fisher--Yates over the index
  sequence. In its usual form it walks \<open>i\<close> from the last index down to 1 and exchanges
  the element at \<open>i\<close> with the element at a chosen index \<open>pick i\<close> between 0 and \<open>i\<close>.
  This definition is compared with \<open>shuffleLoop\<close>, which is the loop of the source.
\<close>

fun fisherYates :: "(nat \<Rightarrow> nat) \<Rightarrow> nat \<Rightarrow> 'a list \<Rightarrow> 'a list" where
  "fisherYates pick 0 xs = xs"
| "fisherYates pick (Suc i) xs =
     fisherYates pick i (xs[Suc i := xs ! pick (Suc i), pick (Suc i) := xs ! Suc i])"

section \<open>The countdown text, as the specification words it\<close>

text \<open>
  For a remaining time in milliseconds: the minutes are \<open>\<lfloor>remainingMs / 60000\<rfloor>\<close>, the
  seconds are \<open>\<lfloor>(remainingMs mod 60000) / 1000\<rfloor>\<close>, and the text is the minutes, a colon
  and the seconds padded with zeros to two digits. These are compared with \<open>updateTimer\<close>.
\<close>

definition countdownMinutes :: "real \<Rightarrow> int" where
  "countdownMinutes remainingMs = \<lfloor>remainingMs / 60000\<rfloor>"

definition countdownSeconds :: "real \<Rightarrow> int" where
  "countdownSeconds remainingMs =
     \<lfloor>(remainingMs - 60000 * of_int \<lfloor>remainingMs / 60000\<rfloor>) / 1000\<rfloor>"

definition countdownText :: "real \<Rightarrow> string" where
  "countdownText remainingMs =
     digits (nat (countdownMinutes remainingMs)) @ '':'' @
     (if countdownSeconds remainingMs < 10 then ''0'' else []) @
     digits (nat (countdownSeconds remainingMs))"

section \<open>The schedule of a run\<close>

text \<open>
  What holds of the schedule in every state of a run: the solving order lists every
  piece index once, the pieces at the positions before \<open>currentSolvingIndex\<close> are the
  solved ones, and at most one frame callback is requested.
\<close>

definition scheduleInv :: "JigsawPuzzle \<Rightarrow> bool" where
  "scheduleInv this \<longleftrightarrow>
     length (solvingOrder this) = length (pieces this)
     \<and> distinct (solvingOrder this)
     \<and> set (solvingOrder this) = {0..<length (pieces this)}
     \<and> currentSolvingIndex this \<le> length (solvingOrder this)
     \<and> (\<forall>k<length (solvingOrder this).
           solved (pieces this ! (solvingOrder this ! k)) \<longleftrightarrow> k < currentSolvingIndex this)
     \<and> length (pendingFrames this) \<le> 1"

text \<open>
  The progress with which a frame at \<open>elapsed\<close> draws the piece at index \<open>i\<close>. The frame
  computes a progress for the active piece only (\<open>progress\<close>, line 219); it draws every
  other piece at rest: a solved piece at its home position, which is progress 1, and an
  unsolved piece at its scattered position, which is progress 0.
\<close>

definition pieceProgress :: "JigsawPuzzle \<Rightarrow> jsnum \<Rightarrow> nat \<Rightarrow> jsnum" where
  "pieceProgress this elapsed i =
     (if currentSolvingIndex this < length (solvingOrder this)
         \<and> solvingOrder this ! currentSolvingIndex this = i
      then progress this elapsed
      else if solved (pieces this ! i) then Num 1 else Num 0)"

text \<open>The elapsed time a frame with timestamp \<open>currentTime\<close> computes (line 201).\<close>

definition frameElapsed :: "JigsawPuzzle \<Rightarrow> real \<Rightarrow> jsnum" where
  "frameElapsed this currentTime = js_sub (Num currentTime) (animationStartTime this)"

section \<open>What the context calls leave on the canvas\<close>

text \<open>
  The state of the 2D context: the transform in effect, as the \<open>Translate\<close> and \<open>Rotate\<close>
  calls made since the identity (empty for the identity); the stack that \<open>Save\<close> pushes
  and \<open>Restore\<close> pops; and the images drawn since the canvas was last cleared, each with
  the transform it was drawn under, oldest first. \<^verbatim>\<open>clearRect(0, 0, width, height)\<close>
  under the identity transform clears the whole canvas; this program makes no other
  \<^verbatim>\<open>clearRect\<close> call, and any other leaves the drawn images as they are here.
\<close>

record canvasState =
  transform :: "ctx_op list"
  saved :: "ctx_op list list"
  shown :: "(ctx_op list \<times> PieceCanvas \<times> jsnum \<times> jsnum) list"

fun paint :: "jsnum \<Rightarrow> jsnum \<Rightarrow> canvasState \<Rightarrow> ctx_op \<Rightarrow> canvasState" where
  "paint w h c Save = c\<lparr>saved := transform c # saved c\<rparr>"
| "paint w h c Restore =
     (case saved c of [] \<Rightarrow> c | t # rest \<Rightarrow> c\<lparr>transform := t, saved := rest\<rparr>)"
| "paint w h c (Translate x y) = c\<lparr>transform := transform c @ [Translate x y]\<rparr>"
| "paint w h c (Rotate r) = c\<lparr>transform := transform c @ [Rotate r]\<rparr>"
| "paint w h c (DrawImage img x y) = c\<lparr>shown := shown c @ [(transform c, img, x, y)]\<rparr>"
| "paint w h c (ClearRect x y cw ch) =
     (if transform c = [] \<and> x = Num 0 \<and> y = Num 0 \<and> cw = w \<and> ch = h
      then c\<lparr>shown := []\<rparr> else c)"

definition picture :: "jsnum \<Rightarrow> jsnum \<Rightarrow> ctx_op list \<Rightarrow> canvasState" where
  "picture w h ops = foldl (paint w h) \<lparr>transform = [], saved = [], shown = []\<rparr> ops"

text \<open>The canvas of a puzzle after the calls made so far.\<close>

definition canvasPicture :: "JigsawPuzzle \<Rightarrow> canvasState" where
  "canvasPicture this = picture (canvasWidth this) (canvasHeight this) (ctx this)"

text \<open>A piece shown at its home position with no rotation: drawn under the identity.\<close>

definition shownHome :: "JigsawPiece \<Rightarrow> ctx_op list \<times> PieceCanvas \<times> jsnum \<times> jsnum" where
  "shownHome piece = ([], pieceCanvas piece, originalX piece, originalY piece)"

text \<open>
  The state a frame leaves, when a callback is requested and the frame does not throw;
  the state itself otherwise.
\<close>

definition frameState :: "JigsawPuzzle \<Rightarrow> real \<Rightarrow> JigsawPuzzle" where
  "frameState this currentTime =
     (case runFrame this currentTime of Some (Inr this') \<Rightarrow> this' | _ \<Rightarrow> this)"

section \<open>Home rectangles\<close>

text \<open>
  The point \<open>(x, y)\<close> lies in the home rectangle of a piece: the rectangle with the
  corner \<open>(originalX, originalY)\<close> and the width and height of the piece, taken with its
  left and top edges and without its right and bottom edges.
\<close>

definition inHomeRect :: "JigsawPiece \<Rightarrow> real \<Rightarrow> real \<Rightarrow> bool" where
  "inHomeRect piece x y =
     (case (originalX piece, originalY piece, width piece, height piece) of
        (Num ox, Num oy, Num w, Num h) \<Rightarrow> ox \<le> x \<and> x < ox + w \<and> oy \<le> y \<and> y < oy + h
      | _ \<Rightarrow> False)"

section \<open>The timer page\<close>

text \<open>
  \<^verbatim>\<open>parseInt(string)\<close> with no radix: the argument is converted to a string (\<open>null\<close>
  becomes the string \<open>null\<close>), leading white space is dropped, a sign is read, a prefix
  \<open>0x\<close> or \<open>0X\<close> selects radix 16 and radix 10 applies otherwise, and the longest run of
  digits of that radix is the value; the result is \<open>NaN\<close> when there is no digit. A
  character here is a byte, so white space is the ASCII white space.
\<close>

definition isWhiteSpace :: "char \<Rightarrow> bool" where
  "isWhiteSpace c \<longleftrightarrow> c \<in> {CHR 0x09, CHR 0x0A, CHR 0x0B, CHR 0x0C, CHR 0x0D, CHR 0x20}"

definition digitValue :: "char \<Rightarrow> nat option" where
  "digitValue c =
     (let n = (of_char c :: nat) in
      if 48 \<le> n \<and> n \<le> 57 then Some (n - 48)
      else if 97 \<le> n \<and> n \<le> 122 then Some (n - 87)
      else if 65 \<le> n \<and> n \<le> 90 then Some (n - 55)
      else None)"

definition radixDigit :: "nat \<Rightarrow> char \<Rightarrow> bool" where
  "radixDigit r c = (case digitValue c of Some d \<Rightarrow> d < r | None \<Rightarrow> False)"

definition radixValue :: "nat \<Rightarrow> string \<Rightarrow> nat" where
  "radixValue r ds = foldl (\<lambda>acc c. acc * r + (case digitValue c of Some d \<Rightarrow> d | None \<Rightarrow> 0)) 0 ds"

definition parseIntString :: "string \<Rightarrow> jsnum" where
  "parseIntString input =
     (let s = dropWhile isWhiteSpace input;
          negative = (s \<noteq> [] \<and> hd s = CHR ''-'');
          s1 = (if s \<noteq> [] \<and> (hd s = CHR ''+'' \<or> hd s = CHR ''-'') then tl s else s);
          hex = (take 2 s1 = ''0x'' \<or> take 2 s1 = ''0X'');
          s2 = (if hex then drop 2 s1 else s1);
          r = (if hex then 16 else 10);
          z = takeWhile (radixDigit r) s2
      in if z = [] then NaN
         else Num ((if negative then - 1 else 1) * real (radixValue r z)))"

definition parseInt :: "string option \<Rightarrow> jsnum" where
  "parseInt x = parseIntString (case x of None \<Rightarrow> ''null'' | Some s \<Rightarrow> s)"

text \<open>
  \<^verbatim>\<open>a ?? b\<close>: \<open>b\<close> when \<open>a\<close> is \<open>null\<close> or \<open>undefined\<close> (\<open>None\<close> here), and \<open>a\<close>
  otherwise.
\<close>

definition nullish :: "'a option \<Rightarrow> 'a \<Rightarrow> 'a" where
  "nullish a b = (case a of None \<Rightarrow> b | Some v \<Rightarrow> v)"

text \<open>
  Line 17 of the page: \<^verbatim>\<open>const minutes = parseInt(urlParams.get('minutes')) ?? 2;\<close>.
  The query is the list of the name and value pairs of the URL; \<^verbatim>\<open>get\<close> gives the
  value of the first pair of that name, or \<open>null\<close>. \<^verbatim>\<open>parseInt\<close> returns a number,
  which is a value other than \<open>null\<close> and \<open>undefined\<close>: the left operand of \<^verbatim>\<open>??\<close>
  is \<open>Some\<close> of it.
\<close>

definition pageMinutes :: "(string \<times> string) list \<Rightarrow> jsnum" where
  "pageMinutes query = nullish (Some (parseInt (map_of query ''minutes''))) (Num 2)"

text \<open>
  The options a caller passes (\<^verbatim>\<open>interface JigsawOptions\<close>, every field but the image
  and the container optional) and the defaults of the constructor, which the passed
  fields override; \<open>innerWidth\<close> and \<open>innerHeight\<close> are those of the window.
\<close>

record JigsawOptionsInput =
  rowsOpt :: "nat option"
  colsOpt :: "nat option"
  totalDurationOpt :: "jsnum option"
  maxRotationOpt :: "jsnum option"
  maxWidthOpt :: "jsnum option"
  maxHeightOpt :: "jsnum option"

definition constructorOptions :: "jsnum \<Rightarrow> jsnum \<Rightarrow> JigsawOptionsInput \<Rightarrow> JigsawOptions" where
  "constructorOptions innerWidth innerHeight given =
     \<lparr>rows = (case rowsOpt given of None \<Rightarrow> 8 | Some v \<Rightarrow> v),
      cols = (case colsOpt given of None \<Rightarrow> 8 | Some v \<Rightarrow> v),
      totalDuration = (case totalDurationOpt given of None \<Rightarrow> Num 20000 | Some v \<Rightarrow> v),
      maxRotation = (case maxRotationOpt given of None \<Rightarrow> Num 45 | Some v \<Rightarrow> v),
      maxWidth = (case maxWidthOpt given of None \<Rightarrow> js_mul innerWidth (Num 0.9) | Some v \<Rightarrow> v),
      maxHeight = (case maxHeightOpt given of None \<Rightarrow> js_mul innerHeight (Num 0.8) | Some v \<Rightarrow> v)\<rparr>"

text \<open>
  Lines 25 to 32 of the page: the options of the puzzle it constructs.
  \<^verbatim>\<open>
  new Jigsaw({ image, container, rows: 10, cols: 10,
               totalDuration: minutes * 60000, maxRotation: 360 })
  \<close>
\<close>

definition pageOptions :: "(string \<times> string) list \<Rightarrow> jsnum \<Rightarrow> jsnum \<Rightarrow> JigsawOptions" where
  "pageOptions query innerWidth innerHeight =
     constructorOptions innerWidth innerHeight
       \<lparr>rowsOpt = Some 10, colsOpt = Some 10,
        totalDurationOpt = Some (js_mul (pageMinutes query) (Num 60000)),
        maxRotationOpt = Some (Num 360), maxWidthOpt = None, maxHeightOpt = None\<rparr>"

section \<open>A worked configuration\<close>

text \<open>
  The scenario of the specification: a 2 by 2 grid solved in 4000 ms. The image is 800 by
  600 and the display box 400 by 600, every call of \<^verbatim>\<open>Math.random()\<close> gives one
  quarter, and the animation starts at time 0.
\<close>

definition demoOptions :: JigsawOptions where
  "demoOptions = \<lparr>rows = 2, cols = 2, totalDuration = Num 4000, maxRotation = Num 45,
                   maxWidth = Num 400, maxHeight = Num 600\<rparr>"

definition demoImage :: HTMLImageElement where
  "demoImage = \<lparr>imageWidth = 800, imageHeight = 600\<rparr>"

definition demoEnv :: environment where
  "demoEnv = \<lparr>loaded = Some demoImage, mainCtxOk = True, pieceCtxOk = (\<lambda>row col. True),
               random = (\<lambda>k. 1 / 4), now = 0\<rparr>"

text \<open>
  The state \<open>init\<close> leaves for this configuration: the scale factor is one half, the four
  pieces are 200 by 150, every piece is scattered to (50, 37.5) with rotation -22.5, and
  the solving order is 3, 2, 0, 1 with 1000 ms for each piece.
\<close>

definition demoPiece :: "real \<Rightarrow> real \<Rightarrow> JigsawPiece" where
  "demoPiece x y =
     \<lparr>pieceCanvas = \<lparr>pcWidth = Num 200, pcHeight = Num 150, srcX = Num (2 * x), srcY = Num (2 * y),
                      srcW = Num 400, srcH = Num 300\<rparr>,
      originalX = Num x, originalY = Num y, currentX = Num 50, currentY = Num (75 / 2),
      width = Num 200, height = Num 150, solved = False, rotation = Num (- 45 / 2)\<rparr>"

definition demoStart :: JigsawPuzzle where
  "demoStart =
     \<lparr>options = demoOptions, imageElement = demoImage, canvasWidth = Num 400, canvasHeight = Num 300,
      ctx = [],
      pieces = [demoPiece 0 0, demoPiece 200 0, demoPiece 0 150, demoPiece 200 150],
      animationFrameId = Some 1, animationStartTime = Num 0, timerText = [],
      solvingOrder = [3, 2, 0, 1], currentSolvingIndex = 0, pieceMoveDuration = Num 1000,
      scaleFactor = Num (1 / 2), pendingFrames = [1], nextFrameId = 2\<rparr>"

section \<open>Properties of the easing function\<close>

lemma ease_Num:
  "easeInOutCubic (Num t) = Num (if t < 0.5 then 4 * t ^ 3 else 1 - (- 2 * t + 2) ^ 3 / 2)"
  by (simp add: easeInOutCubic_def js_sub_def Math_pow_def power3_eq_cube algebra_simps)

lemma cube_le: "0 \<le> a \<Longrightarrow> a \<le> b \<Longrightarrow> a ^ 3 \<le> (b::real) ^ 3"
  by (rule power_mono)

lemma cube_half: "((1::real) / 2) ^ 3 = 1 / 8"
  by (simp add: power3_eq_cube)

lemma ease_range:
  assumes "0 \<le> t" "t \<le> 1"
  shows "js_ge (easeInOutCubic (Num t)) (Num 0) \<and> js_ge (Num 1) (easeInOutCubic (Num t))"
proof (cases "t < 0.5")
  case True
  have "t ^ 3 \<le> (1/2) ^ 3" using assms True by (intro cube_le) auto
  then have "t ^ 3 \<le> 1 / 8" by (simp only: cube_half)
  moreover have "0 \<le> t ^ 3" using assms by simp
  ultimately have "0 \<le> 4 * t ^ 3 \<and> 4 * t ^ 3 \<le> 1" by linarith
  then show ?thesis using True by (simp add: ease_Num not_less)
next
  case False
  have a: "0 \<le> - 2 * t + 2" using assms by simp
  have "(- 2 * t + 2) ^ 3 \<le> 1 ^ 3" using assms False by (intro cube_le) auto
  then have "(- 2 * t + 2) ^ 3 \<le> 1" by simp
  moreover have "0 \<le> (- 2 * t + 2) ^ 3" using a by (rule zero_le_power)
  ultimately have "0 \<le> 1 - (- 2 * t + 2) ^ 3 / 2 \<and> 1 - (- 2 * t + 2) ^ 3 / 2 \<le> 1" by linarith
  then show ?thesis using False by (simp add: ease_Num not_less)
qed

lemma ease_mono:
  assumes "0 \<le> s" "s \<le> t" "t \<le> 1"
  shows "js_ge (easeInOutCubic (Num t)) (easeInOutCubic (Num s))"
proof -
  consider "t < 0.5" | "s < 0.5" "\<not> t < 0.5" | "\<not> s < 0.5" by linarith
  then show ?thesis
  proof cases
    case 1
    then have s: "s < 0.5" using assms by simp
    have "s ^ 3 \<le> t ^ 3" using assms by (intro cube_le) auto
    then have "4 * s ^ 3 \<le> 4 * t ^ 3" by linarith
    then show ?thesis using 1 s by (simp add: ease_Num not_less)
  next
    case 2
    have "s ^ 3 \<le> (1/2) ^ 3" using assms 2 by (intro cube_le) auto
    then have "s ^ 3 \<le> 1 / 8" by (simp only: cube_half)
    moreover have "(- 2 * t + 2) ^ 3 \<le> 1 ^ 3" using assms 2 by (intro cube_le) auto
    then have "(- 2 * t + 2) ^ 3 \<le> 1" by simp
    ultimately have "4 * s ^ 3 \<le> 1 - (- 2 * t + 2) ^ 3 / 2" by linarith
    then show ?thesis using 2 by (simp add: ease_Num not_less)
  next
    case 3
    then have nt: "\<not> t < 0.5" using assms by simp
    have "(- 2 * t + 2) ^ 3 \<le> (- 2 * s + 2) ^ 3" using assms by (intro cube_le) auto
    then have "1 - (- 2 * s + 2) ^ 3 / 2 \<le> 1 - (- 2 * t + 2) ^ 3 / 2" by linarith
    then show ?thesis using 3 nt by (simp add: ease_Num not_less)
  qed
qed

text \<open>
  Claim C7. On a finite \<open>t\<close> the easing function is \<open>4t\<^sup>3\<close> below one half and
  \<open>1 - (-2t + 2)\<^sup>3 / 2\<close> from one half on. For \<open>t\<close> in \<open>[0, 1]\<close> its value lies in
  \<open>[0, 1]\<close>, it is monotonic non-decreasing on \<open>[0, 1]\<close>, and it maps 0 to 0, one half
  to one half and 1 to 1.
\<close>

theorem easeInOutCubic_properties:
  "easeInOutCubic (Num t) = Num (if t < 0.5 then 4 * t ^ 3 else 1 - (- 2 * t + 2) ^ 3 / 2)
   \<and> (0 \<le> t \<and> t \<le> 1 \<longrightarrow>
        js_ge (easeInOutCubic (Num t)) (Num 0) \<and> js_ge (Num 1) (easeInOutCubic (Num t)))
   \<and> (0 \<le> s \<and> s \<le> t \<and> t \<le> 1 \<longrightarrow> js_ge (easeInOutCubic (Num t)) (easeInOutCubic (Num s)))
   \<and> easeInOutCubic (Num 0) = Num 0
   \<and> easeInOutCubic (Num 0.5) = Num 0.5
   \<and> easeInOutCubic (Num 1) = Num 1"
proof -
  have "easeInOutCubic (Num 0.5) = Num 0.5"
    by (simp add: ease_Num power3_eq_cube)
  moreover have "easeInOutCubic (Num 0) = Num 0" "easeInOutCubic (Num 1) = Num 1"
    by (simp_all add: ease_Num)
  ultimately show ?thesis
    using ease_range [of t] ease_mono [of s t] ease_Num [of t] by blast
qed

theorem easeInOutCubic_properties_witness:
  "(0::real) \<le> 1/4 \<and> (1/4::real) \<le> 3/4 \<and> (3/4::real) \<le> 1
   \<and> easeInOutCubic (Num (3/4)) = Num (15/16)
   \<and> js_ge (easeInOutCubic (Num (3/4))) (Num 0) \<and> js_ge (Num 1) (easeInOutCubic (Num (3/4)))
   \<and> js_ge (easeInOutCubic (Num (3/4))) (easeInOutCubic (Num (1/4)))"
proof -
  note h = easeInOutCubic_properties [of "3/4" "1/4"]
  have a: "(0::real) \<le> 1/4 \<and> (1/4::real) \<le> 3/4 \<and> (0::real) \<le> 3/4 \<and> (3/4::real) \<le> 1"
    by simp
  from h have e: "easeInOutCubic (Num (3/4)) = Num (15/16)"
    by (simp add: power3_eq_cube)
  from h a e show ?thesis
    by blast
qed



section \<open>The worked configuration, evaluated\<close>

lemma upt4: "[0..<4] = [0, 1, 2, 3::nat]"
  by code_simp

lemma upt2: "[0..<2] = [0, 1::nat]"
  by code_simp

lemma init_demo: "init demoOptions demoEnv = Inr demoStart"
  by (simp add: init_def demoEnv_def demoOptions_def demoImage_def newPuzzle_def
      calculateScaleFactor_def setupCanvas_def createPuzzlePieces_def makePiece_def
      shufflePieces_def shufflePiece_def setupSolvingOrder_def startAnimation_def
      requestAnimationFrame_def demoStart_def demoPiece_def js_sub_def Let_def upt2 upt4
      numeral_3_eq_3)


lemma validRandom_quarter: "validRandom (\<lambda>k. 1 / 4)"
  by (simp add: validRandom_def)

section \<open>Properties of the image scaler\<close>

lemma scaleFactor_Num:
  assumes "0 < imageWidth (imageElement this)" "0 < imageHeight (imageElement this)"
    and "maxWidth (options this) = Num mw" "maxHeight (options this) = Num mh"
  shows "scaleFactor (calculateScaleFactor this) =
         Num (min (min (mw / real (imageWidth (imageElement this))) (mh / real (imageHeight (imageElement this)))) 1)"
  using assms by (simp add: calculateScaleFactor_def Let_def min_def)

text \<open>
  Claim C5. For an image of positive width and height and a positive display box, the
  scale factor is the least of \<open>maxWidth / width\<close>, \<open>maxHeight / height\<close> and 1. It is
  positive and at most 1, the canvas gets the scaled dimensions, they do not exceed the
  box, and they do not exceed the dimensions of the image.
\<close>

theorem calculateScaleFactor_bounds:
  assumes "0 < imageWidth (imageElement this)" and "0 < imageHeight (imageElement this)"
    and "maxWidth (options this) = Num mw" and "0 < mw"
    and "maxHeight (options this) = Num mh" and "0 < mh"
    and "s = min (min (mw / real (imageWidth (imageElement this))) (mh / real (imageHeight (imageElement this)))) 1"
  shows "scaleFactor (calculateScaleFactor this) = Num s
         \<and> 0 < s \<and> s \<le> 1
         \<and> (case setupCanvas ctxOk (calculateScaleFactor this) of
              Inl e \<Rightarrow> \<not> ctxOk
            | Inr this' \<Rightarrow> ctxOk
                \<and> canvasWidth this' = Num (real (imageWidth (imageElement this)) * s)
                \<and> canvasHeight this' = Num (real (imageHeight (imageElement this)) * s))
         \<and> real (imageWidth (imageElement this)) * s \<le> mw
         \<and> real (imageHeight (imageElement this)) * s \<le> mh
         \<and> real (imageWidth (imageElement this)) * s \<le> real (imageWidth (imageElement this))
         \<and> real (imageHeight (imageElement this)) * s \<le> real (imageHeight (imageElement this))"
proof -
  let ?W = "real (imageWidth (imageElement this))" and ?H = "real (imageHeight (imageElement this))"
  have W: "0 < ?W" and H: "0 < ?H" using assms(1,2) by simp_all
  have sf: "scaleFactor (calculateScaleFactor this) = Num s"
    using scaleFactor_Num [OF assms(1,2,3,5)] assms(7) by simp
  have pos: "0 < s" using assms(4,6,7) W H by simp
  have le1: "s \<le> 1" using assms(7) by simp
  have "s \<le> mw / ?W" using assms(7) by simp
  then have w: "?W * s \<le> mw" using W by (simp add: pos_le_divide_eq mult.commute)
  have "s \<le> mh / ?H" using assms(7) by simp
  then have h: "?H * s \<le> mh" using H by (simp add: pos_le_divide_eq mult.commute)
  have w1: "?W * s \<le> ?W" using W le1 by (simp add: mult_left_le)
  have h1: "?H * s \<le> ?H" using H le1 by (simp add: mult_left_le)
  have im: "imageElement (calculateScaleFactor this) = imageElement this"
    by (simp add: calculateScaleFactor_def Let_def)
  have cv: "(case setupCanvas ctxOk (calculateScaleFactor this) of
              Inl e \<Rightarrow> \<not> ctxOk
            | Inr this' \<Rightarrow> ctxOk \<and> canvasWidth this' = Num (?W * s) \<and> canvasHeight this' = Num (?H * s))"
    using sf im by (simp add: setupCanvas_def Let_def)
  show ?thesis using sf pos le1 cv w h w1 h1 by blast
qed

theorem calculateScaleFactor_bounds_witness:
  "0 < imageWidth (imageElement (newPuzzle demoOptions demoImage))
   \<and> 0 < imageHeight (imageElement (newPuzzle demoOptions demoImage))
   \<and> maxWidth (options (newPuzzle demoOptions demoImage)) = Num 400
   \<and> maxHeight (options (newPuzzle demoOptions demoImage)) = Num 600
   \<and> scaleFactor (calculateScaleFactor (newPuzzle demoOptions demoImage)) = Num (1 / 2)
   \<and> (case setupCanvas True (calculateScaleFactor (newPuzzle demoOptions demoImage)) of
        Inl e \<Rightarrow> False
      | Inr this' \<Rightarrow> canvasWidth this' = Num 400 \<and> canvasHeight this' = Num 300)"
  using calculateScaleFactor_bounds [of "newPuzzle demoOptions demoImage" 400 600 "1 / 2" True]
  by (simp add: newPuzzle_def demoOptions_def demoImage_def split: sum.splits)

section \<open>Properties of the solving scheduler\<close>

lemma pick_le:
  assumes "0 \<le> r" "r < 1"
  shows "nat \<lfloor>r * real (i + 1)\<rfloor> \<le> i"
proof -
  have "r * real (i + 1) < real (i + 1)" using assms by simp
  then have "\<lfloor>r * real (i + 1)\<rfloor> < int (i + 1)" by (simp add: floor_less_iff)
  then show ?thesis by simp
qed

lemma shuffleLoop_mset:
  "validRandom rnd \<Longrightarrow> i < length xs \<Longrightarrow> mset (shuffleLoop rnd k i xs) = mset xs"
proof (induction i arbitrary: k xs)
  case 0
  then show ?case by simp
next
  case (Suc i)
  let ?j = "nat \<lfloor>rnd k * real (Suc i + 1)\<rfloor>"
  have j: "?j \<le> Suc i" using Suc.prems(1) pick_le [of "rnd k" "Suc i"] by (simp add: validRandom_def)
  then have jl: "?j < length xs" using Suc.prems(2) by simp
  have sw: "mset (xs[Suc i := xs ! ?j, ?j := xs ! Suc i]) = mset xs"
    using mset_swap [OF jl Suc.prems(2)] .
  have "mset (shuffleLoop rnd (k + 1) i (xs[Suc i := xs ! ?j, ?j := xs ! Suc i]))
        = mset (xs[Suc i := xs ! ?j, ?j := xs ! Suc i])"
    using Suc.prems by (intro Suc.IH) simp_all
  then show ?case using sw by (simp add: Let_def)
qed

lemma fisherYates_cong:
  "(\<And>i'. 1 \<le> i' \<Longrightarrow> i' \<le> i \<Longrightarrow> p i' = q i') \<Longrightarrow> fisherYates p i xs = fisherYates q i xs"
  by (induction i arbitrary: xs) simp_all

lemma shuffleLoop_fisherYates:
  "shuffleLoop rnd k i xs = fisherYates (\<lambda>i'. nat \<lfloor>rnd (k + i - i') * real (i' + 1)\<rfloor>) i xs"
proof (induction i arbitrary: k xs)
  case 0
  then show ?case by simp
next
  case (Suc i)
  have "fisherYates (\<lambda>i'. nat \<lfloor>rnd (k + 1 + i - i') * real (i' + 1)\<rfloor>) i ys
        = fisherYates (\<lambda>i'. nat \<lfloor>rnd (k + Suc i - i') * real (i' + 1)\<rfloor>) i ys" for ys
    by (rule fisherYates_cong) simp
  then show ?case using Suc.IH [of "k + 1"] by (simp add: Let_def)
qed

text \<open>
  Claim C6. With at least one piece and results of \<^verbatim>\<open>Math.random()\<close> in \<open>[0, 1)\<close>, the
  solving order holds every index below the number of pieces exactly once; it is the
  result of Fisher--Yates on the index sequence, where step \<open>i\<close> picks the index
  \<open>\<lfloor>r (i + 1)\<rfloor> \<le> i\<close>; and the time for a piece is the total duration divided by the
  number of pieces.
\<close>

theorem setupSolvingOrder_permutation:
  assumes "validRandom rnd" and "1 \<le> length (pieces this)"
    and "totalDuration (options this) = Num T"
  shows "mset (solvingOrder (setupSolvingOrder rnd this)) = mset [0..<length (pieces this)]
         \<and> length (solvingOrder (setupSolvingOrder rnd this)) = length (pieces this)
         \<and> distinct (solvingOrder (setupSolvingOrder rnd this))
         \<and> set (solvingOrder (setupSolvingOrder rnd this)) = {0..<length (pieces this)}
         \<and> solvingOrder (setupSolvingOrder rnd this)
             = fisherYates (\<lambda>i. nat \<lfloor>rnd (length (pieces this) - 1 - i) * real (i + 1)\<rfloor>)
                 (length (pieces this) - 1) [0..<length (pieces this)]
         \<and> (\<forall>i. nat \<lfloor>rnd (length (pieces this) - 1 - i) * real (i + 1)\<rfloor> \<le> i)
         \<and> pieceMoveDuration (setupSolvingOrder rnd this) = Num (T / real (length (pieces this)))"
proof -
  let ?N = "length (pieces this)"
  let ?xs = "solvingOrder (setupSolvingOrder rnd this)"
  have so: "?xs = shuffleLoop rnd 0 (?N - 1) [0..<?N]"
    by (simp add: setupSolvingOrder_def)
  have m: "mset ?xs = mset [0..<?N]"
    unfolding so using assms(1,2) by (intro shuffleLoop_mset) simp_all
  have l: "length ?xs = ?N" using mset_eq_length [OF m] by simp
  have d: "distinct ?xs" using mset_eq_imp_distinct_iff [OF m] by simp
  have s: "set ?xs = {0..<?N}" using mset_eq_setD [OF m] by simp
  have f: "?xs = fisherYates (\<lambda>i. nat \<lfloor>rnd (?N - 1 - i) * real (i + 1)\<rfloor>) (?N - 1) [0..<?N]"
    unfolding so by (simp add: shuffleLoop_fisherYates)
  have p: "\<forall>i. nat \<lfloor>rnd (?N - 1 - i) * real (i + 1)\<rfloor> \<le> i"
    using assms(1) pick_le by (simp add: validRandom_def)
  have ne: "pieces this \<noteq> []" using assms(2) by auto
  have pm: "pieceMoveDuration (setupSolvingOrder rnd this) = Num (T / real ?N)"
    using assms(3) ne by (simp add: setupSolvingOrder_def)
  show ?thesis using m l d s f p pm by blast
qed


theorem setupSolvingOrder_permutation_witness:
  "validRandom (\<lambda>k. 1 / 4)
   \<and> 1 \<le> length (pieces demoStart)
   \<and> totalDuration (options demoStart) = Num 4000
   \<and> solvingOrder (setupSolvingOrder (\<lambda>k. 1 / 4) demoStart) = [3, 2, 0, 1]
   \<and> distinct (solvingOrder (setupSolvingOrder (\<lambda>k. 1 / 4) demoStart))
   \<and> set (solvingOrder (setupSolvingOrder (\<lambda>k. 1 / 4) demoStart)) = {0..<length (pieces demoStart)}
   \<and> pieceMoveDuration (setupSolvingOrder (\<lambda>k. 1 / 4) demoStart) = Num 1000"
proof -
  have a: "1 \<le> length (pieces demoStart)"
    by (simp add: demoStart_def)
  have b: "totalDuration (options demoStart) = Num 4000"
    by (simp add: demoStart_def demoOptions_def)
  have c: "solvingOrder (setupSolvingOrder (\<lambda>k. 1 / 4) demoStart) = [3, 2, 0, 1]"
    by (simp add: setupSolvingOrder_def demoStart_def upt4 numeral_3_eq_3 Let_def)
  have d: "length (pieces demoStart) = 4"
    by (simp add: demoStart_def)
  note h = setupSolvingOrder_permutation [OF validRandom_quarter a b]
  from h have e: "distinct (solvingOrder (setupSolvingOrder (\<lambda>k. 1 / 4) demoStart))"
    by blast
  from h have f: "set (solvingOrder (setupSolvingOrder (\<lambda>k. 1 / 4) demoStart))
                  = {0..<length (pieces demoStart)}"
    by blast
  from h have "pieceMoveDuration (setupSolvingOrder (\<lambda>k. 1 / 4) demoStart)
               = Num (4000 / real (length (pieces demoStart)))"
    by blast
  then have g: "pieceMoveDuration (setupSolvingOrder (\<lambda>k. 1 / 4) demoStart) = Num 1000"
    by (simp add: d)
  from validRandom_quarter a b c e f g show ?thesis
    by blast
qed

section \<open>Properties of the countdown\<close>

lemma digits_small: "n < 10 \<Longrightarrow> digits n = [''0123456789'' ! n]"
  by (simp add: digits.simps)

lemma length_digits_small: "n < 10 \<Longrightarrow> length (digits n) = 1"
  by (simp add: digits_small)

lemma length_digits_large: "10 \<le> n \<Longrightarrow> 2 \<le> length (digits n)"
  by (subst digits.simps) (simp add: digits.simps [of "n div 10"])

lemma toString_of_int: "0 \<le> k \<Longrightarrow> toString (Num (of_int k)) = digits (nat k)"
  by (simp add: toString_def)

lemma padStart_digits:
  "padStart (digits n) 2 (CHR ''0'') = (if n < 10 then ''0'' else []) @ digits n"
proof (cases "n < 10")
  case True
  then show ?thesis by (simp add: padStart_def length_digits_small)
next
  case False
  then have "2 \<le> length (digits n)" by (intro length_digits_large) simp
  then show ?thesis using False by (simp add: padStart_def)
qed

lemma timerRemaining_Num:
  "totalDuration (options this) = Num T \<Longrightarrow> timerRemaining this (Num e) = Num (max 0 (T - e))"
  by (simp add: timerRemaining_def js_sub_def max_def)

lemma countdownSeconds_range:
  assumes "0 \<le> r"
  shows "0 \<le> countdownSeconds r \<and> countdownSeconds r < 60"
proof -
  let ?q = "\<lfloor>r / 60000\<rfloor>"
  have lo: "0 \<le> r - 60000 * of_int ?q" by linarith
  have hi: "r - 60000 * of_int ?q < 60000" by linarith
  have "0 \<le> (r - 60000 * of_int ?q) / 1000" using lo by simp
  then have a: "0 \<le> countdownSeconds r" by (simp add: countdownSeconds_def)
  have "(r - 60000 * of_int ?q) / 1000 < 60" using hi by simp
  then have b: "countdownSeconds r < 60" by (simp add: countdownSeconds_def floor_less_iff)
  show ?thesis using a b by simp
qed

lemma countdownMinutes_nonneg: "0 \<le> r \<Longrightarrow> 0 \<le> countdownMinutes r"
  by (simp add: countdownMinutes_def)

lemma countdown_total: "60 * countdownMinutes r + countdownSeconds r = \<lfloor>r / 1000\<rfloor>"
proof -
  have "(r - 60000 * of_int \<lfloor>r / 60000\<rfloor>) / 1000 = r / 1000 - of_int (60 * \<lfloor>r / 60000\<rfloor>)"
    by (simp add: field_simps)
  then have "countdownSeconds r = \<lfloor>r / 1000\<rfloor> - 60 * \<lfloor>r / 60000\<rfloor>"
    unfolding countdownSeconds_def by (simp only: floor_diff_of_int)
  then show ?thesis by (simp add: countdownMinutes_def)
qed

lemma countdown_mono:
  "r' \<le> r \<Longrightarrow> 60 * countdownMinutes r' + countdownSeconds r' \<le> 60 * countdownMinutes r + countdownSeconds r"
  unfolding countdown_total by (intro floor_mono) simp

lemma timerMinutes_Num:
  "totalDuration (options this) = Num T \<Longrightarrow>
   timerMinutes this (Num e) = Num (of_int (countdownMinutes (max 0 (T - e))))"
  by (simp add: timerMinutes_def timerRemaining_Num countdownMinutes_def)

lemma timerSeconds_Num:
  "totalDuration (options this) = Num T \<Longrightarrow>
   timerSeconds this (Num e) = Num (of_int (countdownSeconds (max 0 (T - e))))"
  by (simp add: timerSeconds_def timerRemaining_Num countdownSeconds_def trunc_def)

lemma updateTimer_text:
  assumes "totalDuration (options this) = Num T"
  shows "timerText (updateTimer this (Num e)) = countdownText (max 0 (T - e))"
proof -
  let ?r = "max 0 (T - e)"
  have r: "0 \<le> ?r" by simp
  have m: "0 \<le> countdownMinutes ?r" using r by (rule countdownMinutes_nonneg)
  have s: "0 \<le> countdownSeconds ?r" using countdownSeconds_range [OF r] by simp
  have lt: "nat (countdownSeconds ?r) < 10 \<longleftrightarrow> countdownSeconds ?r < 10" using s by linarith
  show ?thesis
    unfolding updateTimer_def countdownText_def
    by (simp add: timerMinutes_Num [OF assms] timerSeconds_Num [OF assms]
        toString_of_int [OF m] toString_of_int [OF s] padStart_digits lt del: max.bounded_iff)
qed

lemma countdownText_0: "countdownText 0 = ''0:00''"
  by (simp add: countdownText_def countdownMinutes_def countdownSeconds_def digits_small)

lemma countdownText_125000: "countdownText 125000 = ''2:05''"
  by (simp add: countdownText_def countdownMinutes_def countdownSeconds_def digits_small)

lemma countdownText_59999: "countdownText 59999 = ''0:59''"
  by (simp add: countdownText_def countdownMinutes_def countdownSeconds_def digits_small
      digits.simps [of 59])


lemma totalDuration_demo: "totalDuration (options demoStart) = Num 4000"
  by (simp add: demoStart_def demoOptions_def)

text \<open>
  Claim C9. For a finite total duration and a finite elapsed time, the countdown text is
  computed from \<open>remaining = max(0, totalDuration - elapsed)\<close>: \<open>\<lfloor>remaining / 60000\<rfloor>\<close>
  minutes, a colon, and \<open>\<lfloor>(remaining mod 60000) / 1000\<rfloor>\<close> seconds in two digits. The
  displayed time does not increase when the elapsed time increases, it is \<open>0:00\<close> from
  the total duration on, and the remaining times 125000, 0 and 59999 give \<open>2:05\<close>,
  \<open>0:00\<close> and \<open>0:59\<close>.
\<close>

theorem updateTimer_countdown:
  assumes "totalDuration (options this) = Num T"
  shows "timerText (updateTimer this (Num e)) = countdownText (max 0 (T - e))
         \<and> timerMinutes this (Num e) = Num (of_int (countdownMinutes (max 0 (T - e))))
         \<and> timerSeconds this (Num e) = Num (of_int (countdownSeconds (max 0 (T - e))))
         \<and> 0 \<le> countdownMinutes (max 0 (T - e))
         \<and> 0 \<le> countdownSeconds (max 0 (T - e)) \<and> countdownSeconds (max 0 (T - e)) < 60
         \<and> (e \<le> e' \<longrightarrow>
               60 * countdownMinutes (max 0 (T - e')) + countdownSeconds (max 0 (T - e'))
               \<le> 60 * countdownMinutes (max 0 (T - e)) + countdownSeconds (max 0 (T - e)))
         \<and> (T \<le> e \<longrightarrow> timerText (updateTimer this (Num e)) = ''0:00'')
         \<and> (T - e = 125000 \<longrightarrow> timerText (updateTimer this (Num e)) = ''2:05'')
         \<and> (T - e = 0 \<longrightarrow> timerText (updateTimer this (Num e)) = ''0:00'')
         \<and> (T - e = 59999 \<longrightarrow> timerText (updateTimer this (Num e)) = ''0:59'')"
proof -
  let ?r = "max 0 (T - e)"
  have r: "0 \<le> ?r" by simp
  note tt = updateTimer_text [OF assms, of e]
  have mono: "e \<le> e' \<longrightarrow>
               60 * countdownMinutes (max 0 (T - e')) + countdownSeconds (max 0 (T - e'))
               \<le> 60 * countdownMinutes ?r + countdownSeconds ?r"
  proof
    assume "e \<le> e'"
    then have "max 0 (T - e') \<le> ?r" by simp
    then show "60 * countdownMinutes (max 0 (T - e')) + countdownSeconds (max 0 (T - e'))
               \<le> 60 * countdownMinutes ?r + countdownSeconds ?r"
      by (rule countdown_mono)
  qed
  have z: "T \<le> e \<longrightarrow> timerText (updateTimer this (Num e)) = ''0:00''"
    using tt by (simp add: max_def countdownText_0)
  have z': "T - e = 0 \<longrightarrow> timerText (updateTimer this (Num e)) = ''0:00''"
    using tt by (simp add: countdownText_0)
  have a: "T - e = 125000 \<longrightarrow> timerText (updateTimer this (Num e)) = ''2:05''"
    using tt by (simp add: countdownText_125000)
  have b: "T - e = 59999 \<longrightarrow> timerText (updateTimer this (Num e)) = ''0:59''"
    using tt by (simp add: countdownText_59999)
  show ?thesis
    using tt timerMinutes_Num [OF assms, of e] timerSeconds_Num [OF assms, of e]
      countdownMinutes_nonneg [OF r] countdownSeconds_range [OF r] mono z z' a b
    by blast
qed

theorem updateTimer_countdown_witness:
  "totalDuration (options demoStart) = Num 4000
   \<and> (1500::real) \<le> 2500
   \<and> timerText (updateTimer demoStart (Num 1500)) = ''0:02''
   \<and> timerMinutes demoStart (Num 1500) = Num 0
   \<and> timerSeconds demoStart (Num 1500) = Num 2
   \<and> (4000::real) \<le> 4000
   \<and> timerText (updateTimer demoStart (Num 4000)) = ''0:00''
   \<and> totalDuration (options (demoStart\<lparr>options := demoOptions\<lparr>totalDuration := Num 125000\<rparr>\<rparr>)) = Num 125000
   \<and> timerText (updateTimer (demoStart\<lparr>options := demoOptions\<lparr>totalDuration := Num 125000\<rparr>\<rparr>) (Num 0))
       = ''2:05''
   \<and> timerText (updateTimer (demoStart\<lparr>options := demoOptions\<lparr>totalDuration := Num 125000\<rparr>\<rparr>) (Num 65001))
       = ''0:59''"
proof -
  let ?long = "demoStart\<lparr>options := demoOptions\<lparr>totalDuration := Num 125000\<rparr>\<rparr>"
  have l: "totalDuration (options ?long) = Num 125000" by simp
  have c2: "countdownText 2500 = ''0:02''"
    by (simp add: countdownText_def countdownMinutes_def countdownSeconds_def digits_small)
  have m: "countdownMinutes 2500 = 0" by (simp add: countdownMinutes_def)
  have s: "countdownSeconds 2500 = 2" by (simp add: countdownSeconds_def)
  note h = updateTimer_countdown [OF totalDuration_demo, of 1500 2500]
  from h have "timerText (updateTimer demoStart (Num 1500)) = countdownText (max 0 (4000 - 1500))"
    by blast
  then have a1: "timerText (updateTimer demoStart (Num 1500)) = ''0:02''"
    by (simp add: c2)
  from h have "timerMinutes demoStart (Num 1500) = Num (of_int (countdownMinutes (max 0 (4000 - 1500))))"
    by blast
  then have a2: "timerMinutes demoStart (Num 1500) = Num 0"
    by (simp add: m)
  from h have "timerSeconds demoStart (Num 1500) = Num (of_int (countdownSeconds (max 0 (4000 - 1500))))"
    by blast
  then have a3: "timerSeconds demoStart (Num 1500) = Num 2"
    by (simp add: s)
  have p1: "(4000::real) \<le> 4000" by simp
  from updateTimer_countdown [OF totalDuration_demo, of 4000 4000] p1
  have b: "timerText (updateTimer demoStart (Num 4000)) = ''0:00''"
    by blast
  have p2: "(125000::real) - 0 = 125000" by simp
  from updateTimer_countdown [OF l, of 0 0] p2
  have c: "timerText (updateTimer ?long (Num 0)) = ''2:05''"
    by blast
  have p3: "(125000::real) - 65001 = 59999" by simp
  from updateTimer_countdown [OF l, of 65001 65001] p3
  have d: "timerText (updateTimer ?long (Num 65001)) = ''0:59''"
    by blast
  have p4: "(1500::real) \<le> 2500" by simp
  from totalDuration_demo p4 a1 a2 a3 p1 b l c d show ?thesis
    by blast
qed

section \<open>The invariant of a run\<close>

lemma progress_updates [simp]:
  "progress (this\<lparr>ctx := c\<rparr>) e = progress this e"
  "progress (this\<lparr>timerText := s\<rparr>) e = progress this e"
  "progress (this\<lparr>pendingFrames := f\<rparr>) e = progress this e"
  by (simp_all add: progress_def pieceElapsed_def)

lemma active_in_range:
  assumes "scheduleInv this" "currentSolvingIndex this < length (solvingOrder this)"
  shows "solvingOrder this ! currentSolvingIndex this < length (pieces this)"
proof -
  have "solvingOrder this ! currentSolvingIndex this \<in> set (solvingOrder this)"
    using assms(2) by simp
  then show ?thesis using assms(1) by (simp add: scheduleInv_def)
qed

text \<open>The state after the solving step of a frame.\<close>

lemma solveActive_Inr:
  assumes "scheduleInv this"
  shows "solveActive this e = Inr
     (if currentSolvingIndex this < length (solvingOrder this) then
        (if js_ge (progress this e) (Num 1) then
           this\<lparr>ctx := ctx this @ drawActive (pieces this ! (solvingOrder this ! currentSolvingIndex this)) (progress this e),
                pieces := (pieces this)[solvingOrder this ! currentSolvingIndex this :=
                   (pieces this ! (solvingOrder this ! currentSolvingIndex this))\<lparr>solved := True, rotation := Num 0\<rparr>],
                currentSolvingIndex := currentSolvingIndex this + 1\<rparr>
         else this\<lparr>ctx := ctx this @ drawActive (pieces this ! (solvingOrder this ! currentSolvingIndex this)) (progress this e)\<rparr>)
      else this)"
  using active_in_range [OF assms]
  by (simp add: solveActive_def Let_def)


lemma solved_after_step:
  assumes inv: "scheduleInv this"
    and act: "currentSolvingIndex this < length (solvingOrder this)"
    and k: "k < length (solvingOrder this)"
  shows "solved ((pieces this)[solvingOrder this ! currentSolvingIndex this :=
           (pieces this ! (solvingOrder this ! currentSolvingIndex this))\<lparr>solved := True, rotation := Num 0\<rparr>]
             ! (solvingOrder this ! k))
         \<longleftrightarrow> k < currentSolvingIndex this + 1"
proof (cases "k = currentSolvingIndex this")
  case True
  then show ?thesis using active_in_range [OF inv act] by simp
next
  case False
  have d: "distinct (solvingOrder this)" using inv by (simp add: scheduleInv_def)
  have ne: "solvingOrder this ! k \<noteq> solvingOrder this ! currentSolvingIndex this"
    using False d act k by (simp add: nth_eq_iff_index_eq)
  have "solved (pieces this ! (solvingOrder this ! k)) \<longleftrightarrow> k < currentSolvingIndex this"
    using inv k by (simp add: scheduleInv_def)
  then show ?thesis using ne False by auto
qed

lemma scheduleInv_solveActive:
  assumes inv: "scheduleInv this" and step: "solveActive this e = Inr this'"
  shows "scheduleInv this'"
proof (cases "currentSolvingIndex this < length (solvingOrder this) \<and> js_ge (progress this e) (Num 1)")
  case True
  then have act: "currentSolvingIndex this < length (solvingOrder this)" by simp
  let ?a = "solvingOrder this ! currentSolvingIndex this"
  have eq: "this' = this\<lparr>ctx := ctx this @ drawActive (pieces this ! ?a) (progress this e),
                pieces := (pieces this)[?a := (pieces this ! ?a)\<lparr>solved := True, rotation := Num 0\<rparr>],
                currentSolvingIndex := currentSolvingIndex this + 1\<rparr>"
    using step True unfolding solveActive_Inr [OF inv] by simp
  have "\<forall>k<length (solvingOrder this'). solved (pieces this' ! (solvingOrder this' ! k))
          \<longleftrightarrow> k < currentSolvingIndex this'"
    using solved_after_step [OF inv act] by (simp add: eq)
  moreover have "length (solvingOrder this') = length (pieces this')
     \<and> distinct (solvingOrder this')
     \<and> set (solvingOrder this') = {0..<length (pieces this')}
     \<and> currentSolvingIndex this' \<le> length (solvingOrder this')
     \<and> length (pendingFrames this') \<le> 1"
    using inv act by (simp add: eq scheduleInv_def)
  ultimately show ?thesis unfolding scheduleInv_def by blast
next
  case False
  then have "this' = this \<or> (\<exists>c. this' = this\<lparr>ctx := c\<rparr>)"
    using step unfolding solveActive_Inr [OF inv] by (auto split: if_splits)
  then show ?thesis using inv by (auto simp: scheduleInv_def)
qed

lemma scheduleInv_updates [simp]:
  "scheduleInv (this\<lparr>ctx := c\<rparr>) = scheduleInv this"
  "scheduleInv (this\<lparr>timerText := s\<rparr>) = scheduleInv this"
  "scheduleInv (this\<lparr>animationFrameId := a\<rparr>) = scheduleInv this"
  "scheduleInv (this\<lparr>nextFrameId := n\<rparr>) = scheduleInv this"
  by (simp_all add: scheduleInv_def)

lemma scheduleInv_updateTimer [simp]: "scheduleInv (updateTimer this e) = scheduleInv this"
  by (simp add: updateTimer_def)

lemma pendingFrames_updateTimer [simp]: "pendingFrames (updateTimer this e) = pendingFrames this"
  by (simp add: updateTimer_def)

lemma pendingFrames_solveActive:
  "solveActive this e = Inr this' \<Longrightarrow> pendingFrames this' = pendingFrames this"
  by (auto simp: solveActive_def Let_def split: if_splits)

lemma scheduleInv_finishFrame:
  assumes "scheduleInv this" "pendingFrames this = []"
  shows "scheduleInv (finishFrame this e)"
  using assms
  by (auto simp: finishFrame_def requestAnimationFrame_def cancelAnimationFrame_def
      scheduleInv_def updateTimer_def Let_def split: option.splits)

lemma scheduleInv_animate:
  assumes inv: "scheduleInv this" and p: "pendingFrames this = []"
    and step: "animate this t = Inr this'"
  shows "scheduleInv this'"
proof -
  let ?e = "js_sub t (animationStartTime this)"
  let ?this2 = "(updateTimer this ?e)\<lparr>ctx := ctx (updateTimer this ?e)
        @ [ClearRect (Num 0) (Num 0) (canvasWidth (updateTimer this ?e)) (canvasHeight (updateTimer this ?e))]
        @ concat (map drawPiece (pieces (updateTimer this ?e)))\<rparr>"
  have an: "animate this t = (case solveActive ?this2 ?e of Inl x \<Rightarrow> Inl x
                              | Inr this3 \<Rightarrow> Inr (finishFrame this3 ?e))"
    by (simp add: animate_def Let_def)
  show ?thesis
  proof (cases "solveActive ?this2 ?e")
    case (Inl x)
    then show ?thesis using step an by simp
  next
    case (Inr this3)
    then have r: "this' = finishFrame this3 ?e" using step an by simp
    have i2: "scheduleInv ?this2" using inv by simp
    have i3: "scheduleInv this3" using scheduleInv_solveActive [OF i2 Inr] .
    have p3: "pendingFrames this3 = []" using pendingFrames_solveActive [OF Inr] p by simp
    show ?thesis unfolding r using scheduleInv_finishFrame [OF i3 p3] .
  qed
qed

lemma runFrame_animate:
  assumes inv: "scheduleInv this" and step: "runFrame this t = Some r"
  shows "\<exists>fid. pendingFrames this = [fid] \<and> r = animate (this\<lparr>pendingFrames := []\<rparr>) (Num t)"
proof (cases "pendingFrames this")
  case Nil
  then show ?thesis using step by (simp add: runFrame_def)
next
  case (Cons fid rest)
  then have "rest = []" using inv by (simp add: scheduleInv_def)
  then show ?thesis using step Cons by (simp add: runFrame_def)
qed

lemma scheduleInv_runFrame:
  assumes inv: "scheduleInv this" and step: "runFrame this t = Some (Inr this')"
  shows "scheduleInv this'"
proof -
  from runFrame_animate [OF inv step]
  have an: "animate (this\<lparr>pendingFrames := []\<rparr>) (Num t) = Inr this'" by auto
  have i: "scheduleInv (this\<lparr>pendingFrames := []\<rparr>)" using inv by (simp add: scheduleInv_def)
  show ?thesis using scheduleInv_animate [OF i _ an] by simp
qed

lemma createPuzzlePieces_unsolved:
  "pieces this = [] \<Longrightarrow> p \<in> set (pieces (createPuzzlePieces ok this)) \<Longrightarrow> \<not> solved p"
  by (auto simp: createPuzzlePieces_def makePiece_def Let_def)

lemma shufflePieces_solved:
  "length (pieces (shufflePieces rnd this)) = length (pieces this)"
  "i < length (pieces this) \<Longrightarrow> solved (pieces (shufflePieces rnd this) ! i) = solved (pieces this ! i)"
  by (simp_all add: shufflePieces_def shufflePiece_def)

lemma setupCanvas_pieces:
  "setupCanvas ok this = Inr this' \<Longrightarrow>
   pieces this' = pieces this \<and> currentSolvingIndex this' = currentSolvingIndex this
   \<and> pendingFrames this' = pendingFrames this \<and> nextFrameId this' = nextFrameId this"
  by (auto simp: setupCanvas_def Let_def split: if_splits)

lemma init_state:
  assumes "init opts env = Inr this"
  shows "currentSolvingIndex this = 0 \<and> pendingFrames this = [1]
         \<and> (\<forall>i<length (pieces this). \<not> solved (pieces this ! i))
         \<and> solvingOrder this = shuffleLoop (\<lambda>k. random env (3 * length (pieces this) + k)) 0
              (length (pieces this) - 1) [0..<length (pieces this)]"
proof -
  from assms obtain img this1 where l: "loaded env = Some img"
    and c: "setupCanvas (mainCtxOk env) (calculateScaleFactor (newPuzzle opts img)) = Inr this1"
    by (auto simp: init_def split: option.splits sum.splits)
  let ?this2 = "createPuzzlePieces (pieceCtxOk env) this1"
  let ?this3 = "shufflePieces (random env) ?this2"
  let ?this4 = "setupSolvingOrder (\<lambda>k. random env (3 * length (pieces ?this3) + k)) ?this3"
  have eq: "this = startAnimation (Num (now env)) ?this4"
    using assms l c by (simp add: init_def Let_def)
  have f1: "pieces this1 = [] \<and> currentSolvingIndex this1 = 0 \<and> pendingFrames this1 = []
            \<and> nextFrameId this1 = 1"
    using setupCanvas_pieces [OF c] by (simp add: calculateScaleFactor_def newPuzzle_def Let_def)
  have f2: "\<forall>p\<in>set (pieces ?this2). \<not> solved p"
    using createPuzzlePieces_unsolved f1 by blast
  have f3: "\<forall>i<length (pieces ?this3). \<not> solved (pieces ?this3 ! i)"
    using f2 by (simp add: shufflePieces_solved)
  have p4: "pieces this = pieces ?this3"
    by (simp add: eq startAnimation_def requestAnimationFrame_def setupSolvingOrder_def Let_def)
  have c4: "currentSolvingIndex this = 0"
    using f1
    by (simp add: eq startAnimation_def requestAnimationFrame_def setupSolvingOrder_def
        shufflePieces_def createPuzzlePieces_def Let_def)
  have pf: "pendingFrames this = [1]"
    using f1
    by (simp add: eq startAnimation_def requestAnimationFrame_def setupSolvingOrder_def
        shufflePieces_def createPuzzlePieces_def Let_def)
  have so: "solvingOrder this = shuffleLoop (\<lambda>k. random env (3 * length (pieces ?this3) + k)) 0
              (length (pieces ?this3) - 1) [0..<length (pieces ?this3)]"
    by (simp add: eq startAnimation_def requestAnimationFrame_def setupSolvingOrder_def Let_def)
  show ?thesis using f3 c4 pf so unfolding p4 by blast
qed

lemma shuffleLoop_indices:
  assumes "validRandom rnd"
  shows "mset (shuffleLoop rnd 0 (n - 1) [0..<n]) = mset [0..<n]"
proof (cases "n = 0")
  case True
  then show ?thesis by simp
next
  case False
  then show ?thesis using assms by (intro shuffleLoop_mset) simp_all
qed

lemma validRandom_shift: "validRandom rnd \<Longrightarrow> validRandom (\<lambda>k. rnd (n + k))"
  by (simp add: validRandom_def)

lemma scheduleInv_init:
  assumes v: "validRandom (random env)" and i: "init opts env = Inr this"
  shows "scheduleInv this"
proof -
  note st = init_state [OF i]
  let ?N = "length (pieces this)"
  have m: "mset (solvingOrder this) = mset [0..<?N]"
    using st shuffleLoop_indices [OF validRandom_shift [OF v]] by simp
  have l: "length (solvingOrder this) = ?N" using mset_eq_length [OF m] by simp
  have d: "distinct (solvingOrder this)" using mset_eq_imp_distinct_iff [OF m] by simp
  have s: "set (solvingOrder this) = {0..<?N}" using mset_eq_setD [OF m] by simp
  have u: "\<forall>k<length (solvingOrder this).
             solved (pieces this ! (solvingOrder this ! k)) \<longleftrightarrow> k < currentSolvingIndex this"
  proof (intro allI impI)
    fix k assume "k < length (solvingOrder this)"
    then have "solvingOrder this ! k \<in> set (solvingOrder this)" by simp
    then have "solvingOrder this ! k < ?N" using s by simp
    then show "solved (pieces this ! (solvingOrder this ! k)) \<longleftrightarrow> k < currentSolvingIndex this"
      using st by simp
  qed
  show ?thesis unfolding scheduleInv_def using l d s u st by simp
qed

lemma reachable_scheduleInv: "reachable this \<Longrightarrow> scheduleInv this"
  by (induction rule: reachable.induct) (auto intro: scheduleInv_init scheduleInv_runFrame)

lemma animate_split:
  "animate this t =
     (case solveActive
        ((updateTimer this (js_sub t (animationStartTime this)))
           \<lparr>ctx := ctx this @ [ClearRect (Num 0) (Num 0) (canvasWidth this) (canvasHeight this)]
                   @ concat (map drawPiece (pieces this))\<rparr>)
        (js_sub t (animationStartTime this)) of
        Inl x \<Rightarrow> Inl x
      | Inr this3 \<Rightarrow> Inr (finishFrame this3 (js_sub t (animationStartTime this))))"
  by (simp add: animate_def updateTimer_def Let_def)

lemma finishFrame_pieces [simp]:
  "pieces (finishFrame this e) = pieces this"
  "currentSolvingIndex (finishFrame this e) = currentSolvingIndex this"
  "solvingOrder (finishFrame this e) = solvingOrder this"
  "options (finishFrame this e) = options this"
  "animationStartTime (finishFrame this e) = animationStartTime this"
  "pieceMoveDuration (finishFrame this e) = pieceMoveDuration this"
  "canvasWidth (finishFrame this e) = canvasWidth this"
  "canvasHeight (finishFrame this e) = canvasHeight this"
  by (simp_all add: finishFrame_def requestAnimationFrame_def cancelAnimationFrame_def
      updateTimer_def Let_def split: option.splits)

lemma finishFrame_ctx:
  "ctx (finishFrame this e) =
     ctx this @ (if js_lt e (totalDuration (options this)) then []
                 else ClearRect (Num 0) (Num 0) (canvasWidth this) (canvasHeight this)
                      # map drawHome (pieces this))"
  by (simp add: finishFrame_def requestAnimationFrame_def cancelAnimationFrame_def
      updateTimer_def Let_def split: option.splits)

lemma finishFrame_pending:
  "pendingFrames this = [] \<Longrightarrow>
   pendingFrames (finishFrame this e) =
     (if js_lt e (totalDuration (options this)) then [nextFrameId this] else [])"
  by (simp add: finishFrame_def requestAnimationFrame_def cancelAnimationFrame_def
      updateTimer_def Let_def split: option.splits)

lemma finishFrame_timerText:
  "timerText (finishFrame this e) =
     (if js_lt e (totalDuration (options this)) then timerText this
      else timerText (updateTimer this (totalDuration (options this))))"
  by (simp add: finishFrame_def requestAnimationFrame_def cancelAnimationFrame_def
      updateTimer_def timerMinutes_def timerSeconds_def timerRemaining_def Let_def
      split: option.splits)

text \<open>What a frame does to the pieces, the index, the context and the request queue.\<close>

lemma animate_frame:
  assumes inv: "scheduleInv this" and an: "animate this t = Inr this'"
  defines "e \<equiv> js_sub t (animationStartTime this)"
  defines "a \<equiv> solvingOrder this ! currentSolvingIndex this"
  defines "fin \<equiv> currentSolvingIndex this < length (solvingOrder this) \<and> js_ge (progress this e) (Num 1)"
  shows "pieces this' =
           (if fin then (pieces this)[a := (pieces this ! a)\<lparr>solved := True, rotation := Num 0\<rparr>]
            else pieces this)"
    and "currentSolvingIndex this' = (if fin then currentSolvingIndex this + 1 else currentSolvingIndex this)"
    and "solvingOrder this' = solvingOrder this"
    and "options this' = options this"
    and "animationStartTime this' = animationStartTime this"
    and "pieceMoveDuration this' = pieceMoveDuration this"
    and "canvasWidth this' = canvasWidth this"
    and "canvasHeight this' = canvasHeight this"
    and "ctx this' = ctx this @ [ClearRect (Num 0) (Num 0) (canvasWidth this) (canvasHeight this)]
           @ concat (map drawPiece (pieces this))
           @ (if currentSolvingIndex this < length (solvingOrder this)
              then drawActive (pieces this ! a) (progress this e) else [])
           @ (if js_lt e (totalDuration (options this)) then []
              else ClearRect (Num 0) (Num 0) (canvasWidth this) (canvasHeight this)
                   # map drawHome (pieces this'))"
    and "pendingFrames this = [] \<Longrightarrow>
         pendingFrames this' = (if js_lt e (totalDuration (options this)) then [nextFrameId this] else [])"
    and "timerText this' =
           (if js_lt e (totalDuration (options this)) then timerText (updateTimer this e)
            else timerText (updateTimer this (totalDuration (options this))))"
proof -
  let ?this2 = "(updateTimer this e)
           \<lparr>ctx := ctx this @ [ClearRect (Num 0) (Num 0) (canvasWidth this) (canvasHeight this)]
                   @ concat (map drawPiece (pieces this))\<rparr>"
  have i2: "scheduleInv ?this2" using inv by simp
  have p2: "progress ?this2 e = progress this e" by (simp add: updateTimer_def)
  note s = solveActive_Inr [OF i2, of e]
  have f2: "pieces ?this2 = pieces this" "solvingOrder ?this2 = solvingOrder this"
    "currentSolvingIndex ?this2 = currentSolvingIndex this" "ctx ?this2 = ctx this
      @ [ClearRect (Num 0) (Num 0) (canvasWidth this) (canvasHeight this)]
      @ concat (map drawPiece (pieces this))"
    by (simp_all add: updateTimer_def)
  obtain this3 where s3: "solveActive ?this2 e = Inr this3" using s by simp
  have r: "this' = finishFrame this3 e"
    using an s3 unfolding animate_split e_def by simp
  have t3: "this3 = (if currentSolvingIndex this < length (solvingOrder this) then
        (if js_ge (progress this e) (Num 1) then
           ?this2\<lparr>ctx := ctx ?this2 @ drawActive (pieces this ! a) (progress this e),
                pieces := (pieces this)[a := (pieces this ! a)\<lparr>solved := True, rotation := Num 0\<rparr>],
                currentSolvingIndex := currentSolvingIndex this + 1\<rparr>
         else ?this2\<lparr>ctx := ctx ?this2 @ drawActive (pieces this ! a) (progress this e)\<rparr>)
      else ?this2)"
    using s s3 unfolding p2 f2(1-3) a_def by simp
  have o3: "options this3 = options this" "canvasWidth this3 = canvasWidth this"
    "canvasHeight this3 = canvasHeight this" "pendingFrames this3 = pendingFrames this"
    "nextFrameId this3 = nextFrameId this" "solvingOrder this3 = solvingOrder this"
    "animationStartTime this3 = animationStartTime this"
    "pieceMoveDuration this3 = pieceMoveDuration this"
    "timerText this3 = timerText (updateTimer this e)"
    unfolding t3 by (simp_all add: updateTimer_def)
  show "pieces this' =
           (if fin then (pieces this)[a := (pieces this ! a)\<lparr>solved := True, rotation := Num 0\<rparr>]
            else pieces this)"
    unfolding r t3 fin_def by (simp add: updateTimer_def)
  then have pp: "pieces this3 = pieces this'" unfolding r by simp
  show "currentSolvingIndex this' = (if fin then currentSolvingIndex this + 1 else currentSolvingIndex this)"
    unfolding r t3 fin_def by (simp add: updateTimer_def)
  show "solvingOrder this' = solvingOrder this" unfolding r using o3 by simp
  show "options this' = options this" unfolding r using o3 by simp
  show "animationStartTime this' = animationStartTime this" unfolding r using o3 by simp
  show "pieceMoveDuration this' = pieceMoveDuration this" unfolding r using o3 by simp
  show "canvasWidth this' = canvasWidth this" unfolding r using o3 by simp
  show "canvasHeight this' = canvasHeight this" unfolding r using o3 by simp
  have c3: "ctx this3 = ctx this @ [ClearRect (Num 0) (Num 0) (canvasWidth this) (canvasHeight this)]
           @ concat (map drawPiece (pieces this))
           @ (if currentSolvingIndex this < length (solvingOrder this)
              then drawActive (pieces this ! a) (progress this e) else [])"
    unfolding t3 by (simp add: updateTimer_def)
  show "ctx this' = ctx this @ [ClearRect (Num 0) (Num 0) (canvasWidth this) (canvasHeight this)]
           @ concat (map drawPiece (pieces this))
           @ (if currentSolvingIndex this < length (solvingOrder this)
              then drawActive (pieces this ! a) (progress this e) else [])
           @ (if js_lt e (totalDuration (options this)) then []
              else ClearRect (Num 0) (Num 0) (canvasWidth this) (canvasHeight this)
                   # map drawHome (pieces this'))"
    unfolding r finishFrame_ctx c3 o3 pp [unfolded r] by simp
  show "pendingFrames this' = (if js_lt e (totalDuration (options this)) then [nextFrameId this] else [])"
    if "pendingFrames this = []"
    unfolding r using finishFrame_pending [of this3 e] that o3 by simp
  show "timerText this' =
           (if js_lt e (totalDuration (options this)) then timerText (updateTimer this e)
            else timerText (updateTimer this (totalDuration (options this))))"
    unfolding r finishFrame_timerText o3
    by (simp add: updateTimer_def timerMinutes_def timerSeconds_def timerRemaining_def o3 t3)
qed

section \<open>The canvas during a run\<close>

lemma picture_append: "picture w h (xs @ ys) = foldl (paint w h) (picture w h xs) ys"
  by (simp add: picture_def)

lemma paint_drawRotatedImage:
  assumes "transform c = []"
  shows "foldl (paint w h) c (drawRotatedImage img x y r) =
         c\<lparr>shown := shown c @
            [([Translate (js_add x (js_div (pcWidth img) (Num 2))) (js_add y (js_div (pcHeight img) (Num 2))),
               Rotate (js_div (js_mul r (Num pi)) (Num 180))],
              img, js_div (js_neg (pcWidth img)) (Num 2), js_div (js_neg (pcHeight img)) (Num 2))]\<rparr>"
  using assms by (simp add: drawRotatedImage_def)

lemma paint_drawPiece:
  assumes "transform c = []"
  shows "transform (foldl (paint w h) c (drawPiece p)) = []"
    and "saved (foldl (paint w h) c (drawPiece p)) = saved c"
    and "solved p \<Longrightarrow> shown (foldl (paint w h) c (drawPiece p)) = shown c @ [shownHome p]"
  using assms by (simp_all add: drawPiece_def paint_drawRotatedImage shownHome_def)

lemma paint_drawPieces:
  assumes "transform c = []"
  shows "transform (foldl (paint w h) c (concat (map drawPiece ps))) = []
         \<and> saved (foldl (paint w h) c (concat (map drawPiece ps))) = saved c"
  using assms
proof (induction ps arbitrary: c)
  case Nil
  then show ?case by simp
next
  case (Cons p ps)
  have "transform (foldl (paint w h) c (drawPiece p)) = []"
    using Cons.prems by (rule paint_drawPiece)
  from Cons.IH [OF this] show ?case
    using paint_drawPiece(2) [OF Cons.prems] by simp
qed

lemma paint_drawActive:
  assumes "transform c = []"
  shows "transform (foldl (paint w h) c (drawActive p g)) = []"
    and "saved (foldl (paint w h) c (drawActive p g)) = saved c"
  using assms by (simp_all add: drawActive_def Let_def paint_drawRotatedImage)

lemma paint_drawHome:
  assumes "transform c = []"
  shows "foldl (paint w h) c (map drawHome ps) = c\<lparr>shown := shown c @ map shownHome ps\<rparr>"
  using assms
proof (induction ps arbitrary: c)
  case Nil
  then show ?case by simp
next
  case (Cons p ps)
  then show ?case by (simp add: drawHome_def shownHome_def)
qed

text \<open>The canvas state between the calls of a frame.\<close>

lemma frame_canvas:
  assumes inv: "scheduleInv this" and an: "animate this t = Inr this'"
    and tr: "transform (canvasPicture this) = []" and sv: "saved (canvasPicture this) = []"
  shows "transform (canvasPicture this') = []"
    and "saved (canvasPicture this') = []"
    and "\<not> js_lt (js_sub t (animationStartTime this)) (totalDuration (options this)) \<Longrightarrow>
         shown (canvasPicture this') = map shownHome (pieces this')"
proof -
  let ?w = "canvasWidth this" and ?h = "canvasHeight this"
  let ?e = "js_sub t (animationStartTime this)"
  let ?a = "solvingOrder this ! currentSolvingIndex this"
  let ?c0 = "picture ?w ?h (ctx this)"
  let ?c1 = "paint ?w ?h ?c0 (ClearRect (Num 0) (Num 0) ?w ?h)"
  let ?c2 = "foldl (paint ?w ?h) ?c1 (concat (map drawPiece (pieces this)))"
  let ?act = "if currentSolvingIndex this < length (solvingOrder this)
              then drawActive (pieces this ! ?a) (progress this ?e) else []"
  let ?c3 = "foldl (paint ?w ?h) ?c2 ?act"
  let ?fin = "if js_lt ?e (totalDuration (options this)) then []
              else ClearRect (Num 0) (Num 0) ?w ?h # map drawHome (pieces this')"
  have t0: "transform ?c0 = []" and s0: "saved ?c0 = []"
    using tr sv by (simp_all add: canvasPicture_def)
  have t1: "transform ?c1 = []" and s1: "saved ?c1 = []" using t0 s0 by simp_all
  have t2: "transform ?c2 = []" and s2: "saved ?c2 = []"
    using paint_drawPieces [OF t1] s1 by simp_all
  have t3: "transform ?c3 = []" and s3: "saved ?c3 = []"
    using paint_drawActive [OF t2] t2 s2 by simp_all
  have pic: "canvasPicture this' = foldl (paint ?w ?h) ?c3 ?fin"
    unfolding canvasPicture_def animate_frame(7,8) [OF inv an] animate_frame(9) [OF inv an]
    by (simp add: picture_append)
  show "transform (canvasPicture this') = []"
    unfolding pic using t3 by (simp add: paint_drawHome)
  show "saved (canvasPicture this') = []"
    unfolding pic using t3 s3 by (simp add: paint_drawHome)
  show "shown (canvasPicture this') = map shownHome (pieces this')"
    if "\<not> js_lt ?e (totalDuration (options this))"
    unfolding pic using t3 that by (simp add: paint_drawHome)
qed

section \<open>Frames of a run\<close>

lemma init_ctx:
  assumes "init opts env = Inr this"
  shows "ctx this = []" and "\<exists>n. animationStartTime this = Num n"
proof -
  from assms obtain img this1 where l: "loaded env = Some img"
    and c: "setupCanvas (mainCtxOk env) (calculateScaleFactor (newPuzzle opts img)) = Inr this1"
    by (auto simp: init_def split: option.splits sum.splits)
  have c1: "ctx this1 = []" using c by (auto simp: setupCanvas_def Let_def split: if_splits)
  have eq: "this = startAnimation (Num (now env))
      (setupSolvingOrder (\<lambda>k. random env (3 * length (pieces (shufflePieces (random env)
          (createPuzzlePieces (pieceCtxOk env) this1))) + k))
        (shufflePieces (random env) (createPuzzlePieces (pieceCtxOk env) this1)))"
    using assms l c by (simp add: init_def Let_def)
  show "ctx this = []"
    unfolding eq using c1
    by (simp add: startAnimation_def requestAnimationFrame_def setupSolvingOrder_def
        shufflePieces_def createPuzzlePieces_def Let_def)
  show "\<exists>n. animationStartTime this = Num n"
    unfolding eq
    by (simp add: startAnimation_def requestAnimationFrame_def Let_def)
qed

lemma canvasPicture_pending [simp]:
  "canvasPicture (this\<lparr>pendingFrames := f\<rparr>) = canvasPicture this"
  by (simp add: canvasPicture_def)

lemma scheduleInv_popped:
  "scheduleInv this \<Longrightarrow> scheduleInv (this\<lparr>pendingFrames := []\<rparr>)"
  by (simp add: scheduleInv_def)

lemma reachable_canvas:
  "reachable this \<Longrightarrow> transform (canvasPicture this) = [] \<and> saved (canvasPicture this) = []"
proof (induction rule: reachable.induct)
  case (reach_init env opts this)
  then show ?case using init_ctx(1) [of opts env this]
    by (simp add: canvasPicture_def picture_def)
next
  case (reach_frame this currentTime this')
  have inv: "scheduleInv this" using reach_frame.hyps(1) by (rule reachable_scheduleInv)
  from runFrame_animate [OF inv reach_frame.hyps(2)]
  have an: "animate (this\<lparr>pendingFrames := []\<rparr>) (Num currentTime) = Inr this'" by auto
  show ?case
    using frame_canvas(1,2) [OF scheduleInv_popped [OF inv] an] reach_frame.IH by simp
qed

lemma reachable_startTime: "reachable this \<Longrightarrow> \<exists>n. animationStartTime this = Num n"
proof (induction rule: reachable.induct)
  case (reach_init env opts this)
  then show ?case using init_ctx(2) by blast
next
  case (reach_frame this currentTime this')
  have inv: "scheduleInv this" using reach_frame.hyps(1) by (rule reachable_scheduleInv)
  from runFrame_animate [OF inv reach_frame.hyps(2)]
  have an: "animate (this\<lparr>pendingFrames := []\<rparr>) (Num currentTime) = Inr this'" by auto
  show ?case
    using animate_frame(5) [OF scheduleInv_popped [OF inv] an] reach_frame.IH by simp
qed


lemma animate_total: "scheduleInv this \<Longrightarrow> \<exists>this'. animate this t = Inr this'"
  unfolding animate_split
  using solveActive_Inr [of "(updateTimer this (js_sub t (animationStartTime this)))
           \<lparr>ctx := ctx this @ [ClearRect (Num 0) (Num 0) (canvasWidth this) (canvasHeight this)]
                   @ concat (map drawPiece (pieces this))\<rparr>" "js_sub t (animationStartTime this)"]
  by simp

lemma runFrame_frameState:
  assumes "scheduleInv this" "pendingFrames this \<noteq> []"
  shows "runFrame this t = Some (Inr (frameState this t))"
proof -
  obtain fid rest where p: "pendingFrames this = fid # rest"
    using assms(2) by (cases "pendingFrames this") auto
  have "scheduleInv (this\<lparr>pendingFrames := rest\<rparr>)" using assms(1) p by (simp add: scheduleInv_def)
  from animate_total [OF this, of "Num t"]
  obtain this' where "animate (this\<lparr>pendingFrames := rest\<rparr>) (Num t) = Inr this'" by blast
  then have "runFrame this t = Some (Inr this')" using p by (simp add: runFrame_def)
  then show ?thesis by (simp add: frameState_def)
qed

text \<open>A frame of a run, in terms of the state before it.\<close>

lemma runFrame_frame:
  assumes r: "reachable this" and step: "runFrame this t = Some (Inr this')"
  shows "\<exists>fid. pendingFrames this = [fid]"
    and "animate (this\<lparr>pendingFrames := []\<rparr>) (Num t) = Inr this'"
    and "scheduleInv (this\<lparr>pendingFrames := []\<rparr>)"
  using runFrame_animate [OF reachable_scheduleInv [OF r] step]
    scheduleInv_popped [OF reachable_scheduleInv [OF r]] by auto

section \<open>The worked configuration in a run\<close>

lemma reachable_demoStart: "reachable demoStart"
  using reach_init [of demoEnv demoOptions demoStart] init_demo
  by (simp add: demoEnv_def validRandom_def)

lemma scheduleInv_demoStart: "scheduleInv demoStart"
  using reachable_demoStart by (rule reachable_scheduleInv)

lemma pending_demoStart: "pendingFrames demoStart \<noteq> []"
  by (simp add: demoStart_def)

lemma runFrame_demoStart: "runFrame demoStart t = Some (Inr (frameState demoStart t))"
  by (rule runFrame_frameState [OF scheduleInv_demoStart pending_demoStart])

lemma runFrame_none: "pendingFrames this = [] \<Longrightarrow> runFrame this t = None"
  by (simp add: runFrame_def)

lemma reachable_demoFrame: "reachable (frameState demoStart t)"
  using reach_frame [OF reachable_demoStart runFrame_demoStart] .

lemma progress_demoStart: "progress demoStart (Num e) = Num (min (e / 1000) 1)"
  by (simp add: progress_def pieceElapsed_def demoStart_def js_sub_def min_def)

text \<open>The first frame of the worked configuration, with timestamp \<open>t\<close>.\<close>

lemma demoFrame:
  shows "pieces (frameState demoStart t) =
           (if 1000 \<le> t then (pieces demoStart)[3 := (demoPiece 200 150)\<lparr>solved := True, rotation := Num 0\<rparr>]
            else pieces demoStart)"
    and "currentSolvingIndex (frameState demoStart t) = (if 1000 \<le> t then 1 else 0)"
    and "solvingOrder (frameState demoStart t) = [3, 2, 0, 1]"
    and "pendingFrames (frameState demoStart t) = (if t < 4000 then [2] else [])"
proof -
  note f = runFrame_frame [OF reachable_demoStart runFrame_demoStart [of t]]
  note a = animate_frame [OF f(3) f(2)]
  have p: "progress (demoStart\<lparr>pendingFrames := []\<rparr>)
             (js_sub (Num t) (animationStartTime (demoStart\<lparr>pendingFrames := []\<rparr>)))
           = Num (min (t / 1000) 1)"
    by (simp add: progress_def pieceElapsed_def demoStart_def js_sub_def min_def)
  show "pieces (frameState demoStart t) =
           (if 1000 \<le> t then (pieces demoStart)[3 := (demoPiece 200 150)\<lparr>solved := True, rotation := Num 0\<rparr>]
            else pieces demoStart)"
    unfolding a(1) p by (simp add: demoStart_def min_def)
  show "currentSolvingIndex (frameState demoStart t) = (if 1000 \<le> t then 1 else 0)"
    unfolding a(2) p by (simp add: demoStart_def min_def)
  show "solvingOrder (frameState demoStart t) = [3, 2, 0, 1]"
    unfolding a(3) by (simp add: demoStart_def)
  show "pendingFrames (frameState demoStart t) = (if t < 4000 then [2] else [])"
    using a(10) by (simp add: demoStart_def demoOptions_def js_sub_def)
qed

section \<open>Properties of the schedule\<close>

lemma pieceProgress_rest:
  assumes "\<not> (currentSolvingIndex this < length (solvingOrder this)
              \<and> solvingOrder this ! currentSolvingIndex this = i)"
  shows "\<not> (js_lt (Num 0) (pieceProgress this elapsed i) \<and> js_lt (pieceProgress this elapsed i) (Num 1))"
  using assms by (auto simp: pieceProgress_def)

text \<open>
  Claim C3. In every state of a run (the state after initialisation and every state a
  frame leaves), at most one piece has a progress strictly between 0 and 1; the solving
  order lists every piece once; every piece at a position of the solving order before
  \<open>currentSolvingIndex\<close> is solved and every piece at or after it is unsolved; a frame
  runs exactly when a callback is requested and then completes without throwing; a frame
  never decreases \<open>currentSolvingIndex\<close>, and initialisation leaves it 0.
\<close>

theorem schedule_invariant:
  assumes "reachable this"
  shows "(\<forall>elapsed i j.
            i < length (pieces this) \<and> j < length (pieces this)
            \<and> js_lt (Num 0) (pieceProgress this elapsed i) \<and> js_lt (pieceProgress this elapsed i) (Num 1)
            \<and> js_lt (Num 0) (pieceProgress this elapsed j) \<and> js_lt (pieceProgress this elapsed j) (Num 1)
            \<longrightarrow> i = j)
         \<and> set (solvingOrder this) = {0..<length (pieces this)}
         \<and> distinct (solvingOrder this)
         \<and> (\<forall>k<length (solvingOrder this).
               k < currentSolvingIndex this \<longrightarrow> solved (pieces this ! (solvingOrder this ! k)))
         \<and> (\<forall>k<length (solvingOrder this).
               currentSolvingIndex this \<le> k \<longrightarrow> \<not> solved (pieces this ! (solvingOrder this ! k)))
         \<and> (\<forall>t. runFrame this t =
               (if pendingFrames this = [] then None else Some (Inr (frameState this t))))
         \<and> (\<forall>t this'. runFrame this t = Some (Inr this') \<longrightarrow>
               currentSolvingIndex this \<le> currentSolvingIndex this')
         \<and> (\<forall>opts env this0. init opts env = Inr this0 \<longrightarrow> currentSolvingIndex this0 = 0)"
proof -
  have inv: "scheduleInv this" using assms by (rule reachable_scheduleInv)
  have run: "\<forall>t. runFrame this t =
               (if pendingFrames this = [] then None else Some (Inr (frameState this t)))"
    using runFrame_frameState [OF inv] runFrame_none [of this] by simp
  have one: "\<forall>elapsed i j.
            i < length (pieces this) \<and> j < length (pieces this)
            \<and> js_lt (Num 0) (pieceProgress this elapsed i) \<and> js_lt (pieceProgress this elapsed i) (Num 1)
            \<and> js_lt (Num 0) (pieceProgress this elapsed j) \<and> js_lt (pieceProgress this elapsed j) (Num 1)
            \<longrightarrow> i = j"
    using pieceProgress_rest [of this] by metis
  have so: "set (solvingOrder this) = {0..<length (pieces this)}" "distinct (solvingOrder this)"
    using inv by (simp_all add: scheduleInv_def)
  have before: "\<forall>k<length (solvingOrder this).
               k < currentSolvingIndex this \<longrightarrow> solved (pieces this ! (solvingOrder this ! k))"
    using inv by (simp add: scheduleInv_def)
  have after: "\<forall>k<length (solvingOrder this).
               currentSolvingIndex this \<le> k \<longrightarrow> \<not> solved (pieces this ! (solvingOrder this ! k))"
    using inv by (simp add: scheduleInv_def)
  have mono: "\<forall>t this'. runFrame this t = Some (Inr this') \<longrightarrow>
               currentSolvingIndex this \<le> currentSolvingIndex this'"
  proof (intro allI impI)
    fix t this' assume step: "runFrame this t = Some (Inr this')"
    note f = runFrame_frame [OF assms step]
    show "currentSolvingIndex this \<le> currentSolvingIndex this'"
      using animate_frame(2) [OF f(3) f(2)] by simp
  qed
  have start: "\<forall>opts env this0. init opts env = Inr this0 \<longrightarrow> currentSolvingIndex this0 = 0"
    using init_state by blast
  show ?thesis using one so before after run mono start by blast
qed

theorem schedule_invariant_witness:
  "init demoOptions demoEnv = Inr demoStart
   \<and> runFrame demoStart 1000 = Some (Inr (frameState demoStart 1000))
   \<and> reachable (frameState demoStart 1000)
   \<and> currentSolvingIndex demoStart = 0
   \<and> currentSolvingIndex (frameState demoStart 1000) = 1
   \<and> solvingOrder (frameState demoStart 1000) = [3, 2, 0, 1]
   \<and> solved (pieces (frameState demoStart 1000) ! 3)
   \<and> \<not> solved (pieces (frameState demoStart 1000) ! 2)
   \<and> \<not> solved (pieces (frameState demoStart 1000) ! 0)
   \<and> \<not> solved (pieces (frameState demoStart 1000) ! 1)"
proof -
  let ?s = "frameState demoStart 1000"
  note h = schedule_invariant [OF reachable_demoFrame [of 1000]]
  have c: "currentSolvingIndex ?s = 1" and o: "solvingOrder ?s = [3, 2, 0, 1]"
    by (simp_all add: demoFrame)
  from h have b: "\<forall>k<length (solvingOrder ?s).
               k < currentSolvingIndex ?s \<longrightarrow> solved (pieces ?s ! (solvingOrder ?s ! k))"
    by blast
  from h have a: "\<forall>k<length (solvingOrder ?s).
               currentSolvingIndex ?s \<le> k \<longrightarrow> \<not> solved (pieces ?s ! (solvingOrder ?s ! k))"
    by blast
  have s3: "solved (pieces ?s ! 3)" using b [rule_format, of 0] by (simp add: c o)
  have s2: "\<not> solved (pieces ?s ! 2)" using a [rule_format, of 1] by (simp add: c o)
  have s0: "\<not> solved (pieces ?s ! 0)" using a [rule_format, of 2] by (simp add: c o)
  have s1: "\<not> solved (pieces ?s ! 1)" using a [rule_format, of 3] by (simp add: c o)
  from schedule_invariant [OF reachable_demoStart] init_demo
  have c0: "currentSolvingIndex demoStart = 0" by blast
  from init_demo runFrame_demoStart [of 1000] reachable_demoFrame [of 1000] c0 c o s3 s2 s0 s1
  show ?thesis by blast
qed

section \<open>The effect of a frame\<close>

lemma drawPiece_solved:
  "solved p \<Longrightarrow> drawPiece p = [DrawImage (pieceCanvas p) (originalX p) (originalY p)]"
  by (simp add: drawPiece_def)

lemma drawPieces_split:
  assumes "i < length ps"
  shows "concat (map drawPiece ps) =
         concat (map drawPiece (take i ps)) @ drawPiece (ps ! i) @ concat (map drawPiece (drop (Suc i) ps))"
proof -
  have "ps = take i ps @ ps ! i # drop (Suc i) ps" using assms by (rule id_take_nth_drop)
  then have "concat (map drawPiece ps) = concat (map drawPiece (take i ps @ ps ! i # drop (Suc i) ps))"
    by simp
  then show ?thesis by simp
qed

lemma active_unsolved:
  assumes "scheduleInv this" "currentSolvingIndex this < length (solvingOrder this)"
  shows "\<not> solved (pieces this ! (solvingOrder this ! currentSolvingIndex this))"
  using assms by (simp add: scheduleInv_def)

lemma solve_update_fields:
  assumes "i < length ps"
  shows "currentX (ps[a := (ps ! a)\<lparr>solved := True, rotation := r\<rparr>] ! i) = currentX (ps ! i)"
    and "currentY (ps[a := (ps ! a)\<lparr>solved := True, rotation := r\<rparr>] ! i) = currentY (ps ! i)"
    and "originalX (ps[a := (ps ! a)\<lparr>solved := True, rotation := r\<rparr>] ! i) = originalX (ps ! i)"
    and "originalY (ps[a := (ps ! a)\<lparr>solved := True, rotation := r\<rparr>] ! i) = originalY (ps ! i)"
    and "width (ps[a := (ps ! a)\<lparr>solved := True, rotation := r\<rparr>] ! i) = width (ps ! i)"
    and "height (ps[a := (ps ! a)\<lparr>solved := True, rotation := r\<rparr>] ! i) = height (ps ! i)"
    and "pieceCanvas (ps[a := (ps ! a)\<lparr>solved := True, rotation := r\<rparr>] ! i) = pieceCanvas (ps ! i)"
    and "solved (ps ! i) \<Longrightarrow> solved (ps[a := (ps ! a)\<lparr>solved := True, rotation := r\<rparr>] ! i)"
  using assms by (cases "i = a"; simp)+

lemma frameElapsed_demoStart: "frameElapsed demoStart t = Num t"
  by (simp add: frameElapsed_def demoStart_def js_sub_def)

text \<open>
  Claim C4. In a state of a run with a frame callback requested, the frame completes
  without throwing. It leaves the number of pieces and, of every piece, the current
  and home coordinates, the size and the bitmap as they are. When the progress of the
  active piece reaches 1, the frame sets the solved flag of that piece, which was unset,
  resets its stored rotation to 0 and increments \<open>currentSolvingIndex\<close>; otherwise it
  changes no piece and leaves the index. A solved piece stays solved. In every frame a
  solved piece is drawn by one \<^verbatim>\<open>drawImage\<close> call at its home coordinates under the
  identity transform, it is not the piece of the eased draw, and its drawing does not
  depend on its stored current coordinates.
\<close>

theorem frame_effect:
  assumes "reachable this" and "pendingFrames this \<noteq> []" and "this' = frameState this t"
  shows "runFrame this t = Some (Inr this')
    \<and> length (pieces this') = length (pieces this)
    \<and> (\<forall>i<length (pieces this).
          currentX (pieces this' ! i) = currentX (pieces this ! i)
          \<and> currentY (pieces this' ! i) = currentY (pieces this ! i)
          \<and> originalX (pieces this' ! i) = originalX (pieces this ! i)
          \<and> originalY (pieces this' ! i) = originalY (pieces this ! i)
          \<and> width (pieces this' ! i) = width (pieces this ! i)
          \<and> height (pieces this' ! i) = height (pieces this ! i)
          \<and> pieceCanvas (pieces this' ! i) = pieceCanvas (pieces this ! i))
    \<and> (currentSolvingIndex this < length (solvingOrder this)
         \<and> js_ge (progress this (frameElapsed this t)) (Num 1) \<longrightarrow>
          \<not> solved (pieces this ! (solvingOrder this ! currentSolvingIndex this))
          \<and> pieces this' = (pieces this)[solvingOrder this ! currentSolvingIndex this :=
                (pieces this ! (solvingOrder this ! currentSolvingIndex this))
                  \<lparr>solved := True, rotation := Num 0\<rparr>]
          \<and> currentSolvingIndex this' = currentSolvingIndex this + 1)
    \<and> (\<not> (currentSolvingIndex this < length (solvingOrder this)
            \<and> js_ge (progress this (frameElapsed this t)) (Num 1)) \<longrightarrow>
          pieces this' = pieces this \<and> currentSolvingIndex this' = currentSolvingIndex this)
    \<and> (\<forall>i<length (pieces this). solved (pieces this ! i) \<longrightarrow> solved (pieces this' ! i))
    \<and> (\<forall>i<length (pieces this). solved (pieces this ! i) \<longrightarrow>
          (\<exists>rest. ctx this' =
             (ctx this @ ClearRect (Num 0) (Num 0) (canvasWidth this) (canvasHeight this)
                # concat (map drawPiece (take i (pieces this))))
             @ DrawImage (pieceCanvas (pieces this ! i)) (originalX (pieces this ! i))
                 (originalY (pieces this ! i)) # rest)
          \<and> transform (picture (canvasWidth this) (canvasHeight this)
                (ctx this @ ClearRect (Num 0) (Num 0) (canvasWidth this) (canvasHeight this)
                   # concat (map drawPiece (take i (pieces this))))) = []
          \<and> \<not> (currentSolvingIndex this < length (solvingOrder this)
                \<and> solvingOrder this ! currentSolvingIndex this = i))
    \<and> (\<forall>p x y. solved p \<longrightarrow> drawPiece (p\<lparr>currentX := x, currentY := y\<rparr>) = drawPiece p)"
proof -
  let ?a = "solvingOrder this ! currentSolvingIndex this"
  let ?act = "currentSolvingIndex this < length (solvingOrder this)"
  let ?fin = "?act \<and> js_ge (progress this (frameElapsed this t)) (Num 1)"
  let ?clear = "ClearRect (Num 0) (Num 0) (canvasWidth this) (canvasHeight this)"
  have inv: "scheduleInv this" using assms(1) by (rule reachable_scheduleInv)
  have step: "runFrame this t = Some (Inr this')"
    unfolding assms(3) using runFrame_frameState [OF inv assms(2)] .
  note f = runFrame_frame [OF assms(1) step]
  note a = animate_frame [OF f(3) f(2)]
  have ps: "pieces this' = (if ?fin then (pieces this)[?a := (pieces this ! ?a)\<lparr>solved := True, rotation := Num 0\<rparr>]
                            else pieces this)"
    using a(1) by (simp add: frameElapsed_def)
  have ci: "currentSolvingIndex this' = (if ?fin then currentSolvingIndex this + 1 else currentSolvingIndex this)"
    using a(2) by (simp add: frameElapsed_def)
  have len: "length (pieces this') = length (pieces this)" unfolding ps by simp
  have same: "\<forall>i<length (pieces this).
          currentX (pieces this' ! i) = currentX (pieces this ! i)
          \<and> currentY (pieces this' ! i) = currentY (pieces this ! i)
          \<and> originalX (pieces this' ! i) = originalX (pieces this ! i)
          \<and> originalY (pieces this' ! i) = originalY (pieces this ! i)
          \<and> width (pieces this' ! i) = width (pieces this ! i)
          \<and> height (pieces this' ! i) = height (pieces this ! i)
          \<and> pieceCanvas (pieces this' ! i) = pieceCanvas (pieces this ! i)"
    unfolding ps by (simp add: solve_update_fields)
  have uns: "?act \<longrightarrow> \<not> solved (pieces this ! ?a)"
    using active_unsolved [OF inv] by simp
  have keep: "\<forall>i<length (pieces this). solved (pieces this ! i) \<longrightarrow> solved (pieces this' ! i)"
    unfolding ps by (simp add: solve_update_fields)
  have cx: "ctx this' = ctx this @ [?clear] @ concat (map drawPiece (pieces this))
           @ (if ?act then drawActive (pieces this ! ?a) (progress this (frameElapsed this t)) else [])
           @ (if js_lt (frameElapsed this t) (totalDuration (options this)) then []
              else ?clear # map drawHome (pieces this'))"
    using a(9) by (simp add: frameElapsed_def)
  have tr0: "transform (picture (canvasWidth this) (canvasHeight this) (ctx this)) = []"
    using reachable_canvas [OF assms(1)] by (simp add: canvasPicture_def)
  have drawn: "\<forall>i<length (pieces this). solved (pieces this ! i) \<longrightarrow>
          (\<exists>rest. ctx this' =
             (ctx this @ ?clear # concat (map drawPiece (take i (pieces this))))
             @ DrawImage (pieceCanvas (pieces this ! i)) (originalX (pieces this ! i))
                 (originalY (pieces this ! i)) # rest)
          \<and> transform (picture (canvasWidth this) (canvasHeight this)
                (ctx this @ ?clear # concat (map drawPiece (take i (pieces this))))) = []
          \<and> \<not> (?act \<and> ?a = i)"
  proof (intro allI impI)
    fix i assume i: "i < length (pieces this)" and s: "solved (pieces this ! i)"
    have "ctx this' = (ctx this @ ?clear # concat (map drawPiece (take i (pieces this))))
             @ DrawImage (pieceCanvas (pieces this ! i)) (originalX (pieces this ! i))
                 (originalY (pieces this ! i))
               # (concat (map drawPiece (drop (Suc i) (pieces this)))
           @ (if ?act then drawActive (pieces this ! ?a) (progress this (frameElapsed this t)) else [])
           @ (if js_lt (frameElapsed this t) (totalDuration (options this)) then []
              else ?clear # map drawHome (pieces this')))"
      unfolding cx drawPieces_split [OF i] drawPiece_solved [OF s] by simp
    then have ex: "\<exists>rest. ctx this' =
             (ctx this @ ?clear # concat (map drawPiece (take i (pieces this))))
             @ DrawImage (pieceCanvas (pieces this ! i)) (originalX (pieces this ! i))
                 (originalY (pieces this ! i)) # rest"
      by blast
    have "transform (paint (canvasWidth this) (canvasHeight this)
             (picture (canvasWidth this) (canvasHeight this) (ctx this)) ?clear) = []"
      using tr0 by simp
    from paint_drawPieces [OF this, of _ _ "take i (pieces this)"]
    have tr: "transform (picture (canvasWidth this) (canvasHeight this)
                (ctx this @ ?clear # concat (map drawPiece (take i (pieces this))))) = []"
      by (simp add: picture_append)
    have na: "\<not> (?act \<and> ?a = i)" using uns s by auto
    show "(\<exists>rest. ctx this' =
             (ctx this @ ?clear # concat (map drawPiece (take i (pieces this))))
             @ DrawImage (pieceCanvas (pieces this ! i)) (originalX (pieces this ! i))
                 (originalY (pieces this ! i)) # rest)
          \<and> transform (picture (canvasWidth this) (canvasHeight this)
                (ctx this @ ?clear # concat (map drawPiece (take i (pieces this))))) = []
          \<and> \<not> (?act \<and> ?a = i)"
      using ex tr na by blast
  qed
  have reg: "\<forall>p x y. solved p \<longrightarrow> drawPiece (p\<lparr>currentX := x, currentY := y\<rparr>) = drawPiece p"
    by (simp add: drawPiece_def)
  have fin1: "?fin \<longrightarrow> \<not> solved (pieces this ! ?a)
          \<and> pieces this' = (pieces this)[?a := (pieces this ! ?a)\<lparr>solved := True, rotation := Num 0\<rparr>]
          \<and> currentSolvingIndex this' = currentSolvingIndex this + 1"
    using ps ci uns by simp
  have fin2: "\<not> ?fin \<longrightarrow> pieces this' = pieces this \<and> currentSolvingIndex this' = currentSolvingIndex this"
    using ps ci by simp
  show ?thesis
    using step len same fin1 fin2 keep drawn reg by blast
qed


theorem frame_effect_witness:
  "reachable demoStart
   \<and> runFrame demoStart 1000 = Some (Inr (frameState demoStart 1000))
   \<and> currentSolvingIndex demoStart < length (solvingOrder demoStart)
   \<and> js_ge (progress demoStart (frameElapsed demoStart 1000)) (Num 1)
   \<and> \<not> solved (pieces demoStart ! (solvingOrder demoStart ! currentSolvingIndex demoStart))
   \<and> pieces (frameState demoStart 1000) =
       (pieces demoStart)[solvingOrder demoStart ! currentSolvingIndex demoStart :=
          (pieces demoStart ! (solvingOrder demoStart ! currentSolvingIndex demoStart))
            \<lparr>solved := True, rotation := Num 0\<rparr>]
   \<and> currentSolvingIndex (frameState demoStart 1000) = currentSolvingIndex demoStart + 1
   \<and> runFrame demoStart 500 = Some (Inr (frameState demoStart 500))
   \<and> \<not> js_ge (progress demoStart (frameElapsed demoStart 500)) (Num 1)
   \<and> pieces (frameState demoStart 500) = pieces demoStart
   \<and> currentSolvingIndex (frameState demoStart 500) = currentSolvingIndex demoStart
   \<and> reachable (frameState demoStart 1000)
   \<and> pendingFrames (frameState demoStart 1000) \<noteq> []
   \<and> runFrame (frameState demoStart 1000) 1500
       = Some (Inr (frameState (frameState demoStart 1000) 1500))
   \<and> 3 < length (pieces (frameState demoStart 1000))
   \<and> solved (pieces (frameState demoStart 1000) ! 3)
   \<and> solved (pieces (frameState (frameState demoStart 1000) 1500) ! 3)
   \<and> originalX (pieces (frameState (frameState demoStart 1000) 1500) ! 3) = Num 200"
proof -
  let ?s1 = "frameState demoStart 1000"
  let ?s2 = "frameState ?s1 1500"
  have act: "currentSolvingIndex demoStart < length (solvingOrder demoStart)"
    by (simp add: demoStart_def)
  have g1: "js_ge (progress demoStart (frameElapsed demoStart 1000)) (Num 1)"
    by (simp add: frameElapsed_demoStart progress_demoStart)
  have g2: "\<not> js_ge (progress demoStart (frameElapsed demoStart 500)) (Num 1)"
    by (simp add: frameElapsed_demoStart progress_demoStart)
  note h1 = frame_effect [OF reachable_demoStart pending_demoStart refl, where t = 1000]
  from h1 act g1
  have a: "\<not> solved (pieces demoStart ! (solvingOrder demoStart ! currentSolvingIndex demoStart))
     \<and> pieces ?s1 =
       (pieces demoStart)[solvingOrder demoStart ! currentSolvingIndex demoStart :=
          (pieces demoStart ! (solvingOrder demoStart ! currentSolvingIndex demoStart))
            \<lparr>solved := True, rotation := Num 0\<rparr>]
     \<and> currentSolvingIndex ?s1 = currentSolvingIndex demoStart + 1"
    by blast
  note h2 = frame_effect [OF reachable_demoStart pending_demoStart refl, where t = 500]
  from h2 g2
  have b: "pieces (frameState demoStart 500) = pieces demoStart
     \<and> currentSolvingIndex (frameState demoStart 500) = currentSolvingIndex demoStart"
    by blast
  have r1: "reachable ?s1" by (rule reachable_demoFrame)
  have p1: "pendingFrames ?s1 \<noteq> []" by (simp add: demoFrame)
  have ps1: "pieces ?s1 = (pieces demoStart)[3 := (demoPiece 200 150)\<lparr>solved := True, rotation := Num 0\<rparr>]"
    by (simp add: demoFrame)
  have l3: "3 < length (pieces ?s1)" unfolding ps1 by (simp add: demoStart_def)
  have s3: "solved (pieces ?s1 ! 3)" unfolding ps1 by (simp add: demoStart_def)
  have o3: "originalX (pieces ?s1 ! 3) = Num 200" unfolding ps1 by (simp add: demoStart_def demoPiece_def)
  note h3 = frame_effect [OF r1 p1 refl, where t = 1500]
  from h3 have f2: "runFrame ?s1 1500 = Some (Inr ?s2)" by blast
  from h3 l3 s3 have c: "solved (pieces ?s2 ! 3)" by blast
  from h3 l3 have "originalX (pieces ?s2 ! 3) = originalX (pieces ?s1 ! 3)" by blast
  then have d: "originalX (pieces ?s2 ! 3) = Num 200" using o3 by simp
  from h1 have f1: "runFrame demoStart 1000 = Some (Inr ?s1)" by blast
  from h2 have f0: "runFrame demoStart 500 = Some (Inr (frameState demoStart 500))" by blast
  from reachable_demoStart f1 f0 act g1 g2 a b r1 p1 f2 l3 s3 c d
  show ?thesis by blast
qed

section \<open>The terminal state\<close>






section \<open>The progress of the active piece\<close>

lemma pmd_demoFrame: "pieceMoveDuration (frameState demoStart t) = Num 1000"
proof -
  note f = runFrame_frame [OF reachable_demoStart runFrame_demoStart [of t]]
  show ?thesis using animate_frame(6) [OF f(3) f(2)] by (simp add: demoStart_def)
qed

text \<open>
  Claim C2, as the code has it. For a positive finite time per piece and a finite elapsed
  time, \<open>pieceElapsed = elapsed - currentSolvingIndex * pieceMoveDuration\<close> and the progress
  is \<open>min(pieceElapsed / pieceMoveDuration, 1)\<close>. It is never above 1. When
  \<open>pieceElapsed\<close> is not negative it is the quotient clamped to \<open>[0, 1]\<close> and not below 0;
  when \<open>pieceElapsed\<close> is negative the progress is negative: there is no lower clamp.
\<close>

theorem progress_clamp:
  assumes "pieceMoveDuration this = Num d" and "0 < d"
  shows "pieceElapsed this (Num e) = Num (e - real (currentSolvingIndex this) * d)
         \<and> progress this (Num e) = Num (min ((e - real (currentSolvingIndex this) * d) / d) 1)
         \<and> js_ge (Num 1) (progress this (Num e))
         \<and> (real (currentSolvingIndex this) * d \<le> e \<longrightarrow>
               progress this (Num e)
                 = Num (max 0 (min ((e - real (currentSolvingIndex this) * d) / d) 1))
               \<and> js_ge (progress this (Num e)) (Num 0))
         \<and> (e < real (currentSolvingIndex this) * d \<longrightarrow>
               js_lt (progress this (Num e)) (Num 0))"
proof -
  let ?pe = "e - real (currentSolvingIndex this) * d"
  have pe: "pieceElapsed this (Num e) = Num ?pe"
    using assms(1) by (simp add: pieceElapsed_def js_sub_def)
  have pr: "progress this (Num e) = Num (min (?pe / d) 1)"
    using assms by (simp add: progress_def pe min_def)
  have le: "js_ge (Num 1) (progress this (Num e))"
    unfolding pr by simp
  have nonneg: "real (currentSolvingIndex this) * d \<le> e \<longrightarrow>
               progress this (Num e) = Num (max 0 (min (?pe / d) 1))
               \<and> js_ge (progress this (Num e)) (Num 0)"
  proof
    assume "real (currentSolvingIndex this) * d \<le> e"
    then have "0 \<le> ?pe / d" using assms(2) by simp
    then have "0 \<le> min (?pe / d) 1" by simp
    then show "progress this (Num e) = Num (max 0 (min (?pe / d) 1))
               \<and> js_ge (progress this (Num e)) (Num 0)"
      unfolding pr by (simp add: max_def)
  qed
  have neg: "e < real (currentSolvingIndex this) * d \<longrightarrow> js_lt (progress this (Num e)) (Num 0)"
  proof
    assume "e < real (currentSolvingIndex this) * d"
    then have "?pe / d < 0" using assms(2) by (simp add: divide_neg_pos)
    then have "min (?pe / d) 1 < 0" by simp
    then show "js_lt (progress this (Num e)) (Num 0)" unfolding pr by simp
  qed
  show ?thesis using pe pr le nonneg neg by blast
qed

theorem progress_clamp_witness:
  "pieceMoveDuration (frameState demoStart 1000) = Num 1000
   \<and> (0::real) < 1000
   \<and> currentSolvingIndex (frameState demoStart 1000) = 1
   \<and> real (currentSolvingIndex (frameState demoStart 1000)) * 1000 \<le> 1500
   \<and> pieceElapsed (frameState demoStart 1000) (Num 1500) = Num 500
   \<and> progress (frameState demoStart 1000) (Num 1500) = Num (1 / 2)
   \<and> js_ge (progress (frameState demoStart 1000) (Num 1500)) (Num 0)
   \<and> js_ge (Num 1) (progress (frameState demoStart 1000) (Num 1500))
   \<and> (992::real) < real (currentSolvingIndex (frameState demoStart 1000)) * 1000
   \<and> js_lt (progress (frameState demoStart 1000) (Num 992)) (Num 0)"
proof -
  let ?s = "frameState demoStart 1000"
  have c: "currentSolvingIndex ?s = 1" by (simp add: demoFrame)
  have p: "(0::real) < 1000" by simp
  note h1 = progress_clamp [OF pmd_demoFrame [of 1000] p, of 1500]
  note h2 = progress_clamp [OF pmd_demoFrame [of 1000] p, of 992]
  have q1: "real (currentSolvingIndex ?s) * 1000 \<le> 1500" by (simp add: c)
  have q2: "(992::real) < real (currentSolvingIndex ?s) * 1000" by (simp add: c)
  from h1 have "pieceElapsed ?s (Num 1500) = Num (1500 - real (currentSolvingIndex ?s) * 1000)"
    by blast
  then have a: "pieceElapsed ?s (Num 1500) = Num 500" by (simp add: c)
  from h1 have "progress ?s (Num 1500) = Num (min ((1500 - real (currentSolvingIndex ?s) * 1000) / 1000) 1)"
    by blast
  then have b: "progress ?s (Num 1500) = Num (1 / 2)" by (simp add: c)
  from h1 q1 have d: "js_ge (progress ?s (Num 1500)) (Num 0)" by blast
  from h1 have e: "js_ge (Num 1) (progress ?s (Num 1500))" by blast
  from h2 q2 have f: "js_lt (progress ?s (Num 992)) (Num 0)" by blast
  from pmd_demoFrame [of 1000] p c q1 a b d e q2 f show ?thesis by blast
qed

text \<open>
  Claim C2 as stated has the progress clamped below at 0 for every elapsed value. In the
  state after initialisation of the worked configuration a frame whose timestamp is 8 ms
  before the start time computes the progress -0.008.
\<close>

theorem progress_clamp_counterexample:
  "reachable demoStart
   \<and> currentSolvingIndex demoStart < length (solvingOrder demoStart)
   \<and> frameElapsed demoStart (- 8) = Num (- 8)
   \<and> pieceElapsed demoStart (Num (- 8)) = Num (- 8)
   \<and> progress demoStart (Num (- 8)) = Num (- 1 / 125)
   \<and> js_lt (progress demoStart (Num (- 8))) (Num 0)"
proof -
  have a: "currentSolvingIndex demoStart < length (solvingOrder demoStart)"
    by (simp add: demoStart_def)
  have b: "pieceElapsed demoStart (Num (- 8)) = Num (- 8)"
    by (simp add: pieceElapsed_def js_sub_def demoStart_def)
  have c: "progress demoStart (Num (- 8)) = Num (- 1 / 125)"
    by (simp add: progress_demoStart)
  have d: "js_lt (progress demoStart (Num (- 8))) (Num 0)"
    by (simp add: progress_demoStart)
  from reachable_demoStart a frameElapsed_demoStart [of "- 8"] b c d show ?thesis
    by blast
qed

section \<open>Properties of the piece slicer\<close>

lemma grid_concat:
  "concat (map (\<lambda>r. map (f r) [0..<c]) [0..<n]) = map (\<lambda>i. f (i div c) (i mod c)) [0..<n * c]"
proof (induction n)
  case 0
  then show ?case by simp
next
  case (Suc n)
  have "[0..<n * c + c] = [0..<n * c] @ [n * c..<n * c + c]"
    by (rule upt_add_eq_append) simp
  moreover have "[n * c..<n * c + c] = map (\<lambda>i. i + n * c) [0..<c]"
    by (simp add: map_add_upt add.commute)
  moreover have "Suc n * c = n * c + c" by simp
  ultimately have "[0..<Suc n * c] = [0..<n * c] @ map (\<lambda>i. i + n * c) [0..<c]"
    by (simp only:)
  then have "map (\<lambda>i. f (i div c) (i mod c)) [0..<Suc n * c]
      = map (\<lambda>i. f (i div c) (i mod c)) [0..<n * c]
        @ map (\<lambda>i. f ((i + n * c) div c) ((i + n * c) mod c)) [0..<c]"
    by (simp add: comp_def)
  also have "map (\<lambda>i. f ((i + n * c) div c) ((i + n * c) mod c)) [0..<c] = map (f n) [0..<c]"
    by (rule map_cong) simp_all
  finally show ?case using Suc.IH by simp
qed

lemma grid_concat_filter:
  "concat (map (\<lambda>r. map (f r) (filter (p r) [0..<c])) [0..<n])
   = map (\<lambda>i. f (i div c) (i mod c)) (filter (\<lambda>i. p (i div c) (i mod c)) [0..<n * c])"
proof (induction n)
  case 0
  then show ?case by simp
next
  case (Suc n)
  have "[0..<n * c + c] = [0..<n * c] @ [n * c..<n * c + c]"
    by (rule upt_add_eq_append) simp
  moreover have "[n * c..<n * c + c] = map (\<lambda>i. i + n * c) [0..<c]"
    by (simp add: map_add_upt add.commute)
  moreover have "Suc n * c = n * c + c" by simp
  ultimately have split: "[0..<Suc n * c] = [0..<n * c] @ map (\<lambda>i. i + n * c) [0..<c]"
    by (simp only:)
  have sel: "filter (\<lambda>i. p ((i + n * c) div c) ((i + n * c) mod c)) [0..<c] = filter (p n) [0..<c]"
    by (rule filter_cong) simp_all
  have "map (\<lambda>i. f (i div c) (i mod c)) (filter (\<lambda>i. p (i div c) (i mod c)) [0..<Suc n * c])
      = map (\<lambda>i. f (i div c) (i mod c)) (filter (\<lambda>i. p (i div c) (i mod c)) [0..<n * c])
        @ map (\<lambda>i. f ((i + n * c) div c) ((i + n * c) mod c))
            (filter (\<lambda>i. p ((i + n * c) div c) ((i + n * c) mod c)) [0..<c])"
    unfolding split by (simp add: filter_map comp_def)
  also have "map (\<lambda>i. f ((i + n * c) div c) ((i + n * c) mod c))
            (filter (\<lambda>i. p ((i + n * c) div c) ((i + n * c) mod c)) [0..<c])
      = map (f n) (filter (p n) [0..<c])"
    unfolding sel by (rule map_cong) simp_all
  finally show ?case using Suc.IH by simp
qed

text \<open>
  Whatever cells give a context: the pieces are those of the cells that give one, in
  row-major order; a cell that gives none contributes no piece and the loop goes on.
\<close>

lemma createPuzzlePieces_any:
  assumes "pieces this = []"
  shows "pieces (createPuzzlePieces ok this) =
         map (\<lambda>i. makePiece this (i div cols (options this)) (i mod cols (options this)))
             (filter (\<lambda>i. ok (i div cols (options this)) (i mod cols (options this)))
                [0..<rows (options this) * cols (options this)])"
  using assms by (simp add: createPuzzlePieces_def grid_concat_filter)

lemma createPuzzlePieces_all:
  assumes "pieces this = []"
    and "\<forall>row<rows (options this). \<forall>col<cols (options this). ok row col"
  shows "pieces (createPuzzlePieces ok this) =
         map (\<lambda>i. makePiece this (i div cols (options this)) (i mod cols (options this)))
             [0..<rows (options this) * cols (options this)]"
proof -
  have "map (\<lambda>row. map (makePiece this row) (filter (ok row) [0..<cols (options this)]))
            [0..<rows (options this)]
        = map (\<lambda>row. map (makePiece this row) [0..<cols (options this)]) [0..<rows (options this)]"
    using assms(2) by (intro map_cong) (auto simp: filter_id_conv)
  then have "concat (map (\<lambda>row. map (makePiece this row) (filter (ok row) [0..<cols (options this)]))
            [0..<rows (options this)])
        = concat (map (\<lambda>row. map (makePiece this row) [0..<cols (options this)]) [0..<rows (options this)])"
    by (rule arg_cong)
  also have "\<dots> = map (\<lambda>i. makePiece this (i div cols (options this)) (i mod cols (options this)))
             [0..<rows (options this) * cols (options this)]"
    by (rule grid_concat)
  finally show ?thesis
    using assms(1) by (simp add: createPuzzlePieces_def)
qed

lemma makePiece_fields:
  assumes "1 \<le> rows (options this)" "1 \<le> cols (options this)" "scaleFactor this = Num s"
  shows "width (makePiece this row col)
           = Num (real (imageWidth (imageElement this)) * s / real (cols (options this)))"
    and "height (makePiece this row col)
           = Num (real (imageHeight (imageElement this)) * s / real (rows (options this)))"
    and "originalX (makePiece this row col)
           = Num (real col * (real (imageWidth (imageElement this)) * s / real (cols (options this))))"
    and "originalY (makePiece this row col)
           = Num (real row * (real (imageHeight (imageElement this)) * s / real (rows (options this))))"
    and "\<not> solved (makePiece this row col)"
  using assms by (simp_all add: makePiece_def Let_def)

lemma strip_unique:
  assumes "real c * w \<le> x" "x < real c * w + w"
  shows "0 < w \<and> c = nat \<lfloor>x / w\<rfloor>"
proof -
  have w: "0 < w" using assms by linarith
  have "real c \<le> x / w" using assms(1) w by (simp add: pos_le_divide_eq)
  moreover have "x / w < real c + 1" using assms(2) w by (simp add: pos_divide_less_eq algebra_simps)
  ultimately have "\<lfloor>x / w\<rfloor> = int c" by (intro floor_unique) simp_all
  then show ?thesis using w by simp
qed

lemma strip_exists:
  assumes "0 \<le> x" "x < real n * w"
  shows "\<exists>c<n. real c * w \<le> x \<and> x < real c * w + w"
proof -
  have n: "0 < real n * w" using assms by linarith
  then have w: "0 < w" by (simp add: zero_less_mult_iff)
  define q where "q = \<lfloor>x / w\<rfloor>"
  have q1: "of_int q \<le> x / w" and q2: "x / w < of_int q + 1"
    unfolding q_def by linarith+
  have nn: "0 \<le> x / w" using assms(1) w by simp
  then have q0: "0 \<le> q" unfolding q_def by simp
  then have rc: "real (nat q) = of_int q" by simp
  have a: "real (nat q) * w \<le> x" using q1 w rc by (simp add: pos_le_divide_eq)
  have "x < (real (nat q) + 1) * w" using q2 w rc by (simp add: pos_divide_less_eq)
  then have b: "x < real (nat q) * w + w" by (simp add: algebra_simps)
  have "x / w < real n" using assms(2) w by (simp add: pos_divide_less_eq)
  then have "of_int q < real n" using q1 by linarith
  then have "q < int n" by linarith
  then have "nat q < n" using q0 by simp
  then show ?thesis using a b by blast
qed

lemma strip_inside:
  assumes "c < n" "real c * w \<le> x" "x < real c * w + w"
  shows "0 \<le> x \<and> x < real n * w"
proof -
  have w: "0 < w" using assms by linarith
  have "0 \<le> real c * w" using w by simp
  then have a: "0 \<le> x" using assms(2) by linarith
  have "real c + 1 \<le> real n" using assms(1) by simp
  then have "(real c + 1) * w \<le> real n * w" using w by (simp only: mult_le_cancel_right) simp
  then have "x < real n * w" using assms(3) by (simp add: algebra_simps)
  then show ?thesis using a by simp
qed


lemma inHomeRect_makePiece:
  assumes "1 \<le> rows (options this)" "1 \<le> cols (options this)" "scaleFactor this = Num s"
  shows "inHomeRect (makePiece this row col) x y \<longleftrightarrow>
         real col * (real (imageWidth (imageElement this)) * s / real (cols (options this))) \<le> x
         \<and> x < real col * (real (imageWidth (imageElement this)) * s / real (cols (options this)))
                 + real (imageWidth (imageElement this)) * s / real (cols (options this))
         \<and> real row * (real (imageHeight (imageElement this)) * s / real (rows (options this))) \<le> y
         \<and> y < real row * (real (imageHeight (imageElement this)) * s / real (rows (options this)))
                 + real (imageHeight (imageElement this)) * s / real (rows (options this))"
  unfolding inHomeRect_def makePiece_fields [OF assms] by simp

lemma cell_index:
  assumes "col < (n::nat)"
  shows "(row * n + col) div n = row" and "(row * n + col) mod n = col"
  using assms by simp_all

lemma cell_bound:
  assumes "row < (m::nat)" "col < n"
  shows "row * n + col < m * n"
proof -
  have "row * n + col < row * n + n" using assms(2) by simp
  also have "\<dots> = Suc row * n" by simp
  also have "\<dots> \<le> m * n" using assms(1) by (intro mult_le_mono1) simp
  finally show ?thesis .
qed

lemma demoSized:
  "pieces (calculateScaleFactor (newPuzzle demoOptions demoImage)) = []"
  "rows (options (calculateScaleFactor (newPuzzle demoOptions demoImage))) = 2"
  "cols (options (calculateScaleFactor (newPuzzle demoOptions demoImage))) = 2"
  "imageWidth (imageElement (calculateScaleFactor (newPuzzle demoOptions demoImage))) = 800"
  "imageHeight (imageElement (calculateScaleFactor (newPuzzle demoOptions demoImage))) = 600"
  "scaleFactor (calculateScaleFactor (newPuzzle demoOptions demoImage)) = Num (1 / 2)"
  by (simp_all add: calculateScaleFactor_def newPuzzle_def demoOptions_def demoImage_def Let_def)

text \<open>
  Claim C8, as the code has it. For at least one row and one column and a finite scale
  factor, when the canvas of every cell gives a 2D context, slicing an empty piece list
  produces exactly \<open>rows * cols\<close> pieces in row-major order: the piece at index
  \<open>row * cols + col\<close> is the piece of the cell, of width \<open>imageWidth * s / cols\<close> and
  height \<open>imageHeight * s / rows\<close>, with its home position at \<open>(col * width, row * height)\<close>
  and unsolved. The home rectangles cover exactly the scaled image (no gaps, nothing
  outside) and no point lies in two of them (no overlaps). Whatever cells give a context
  (\<open>anyOk\<close>), the pieces are those of the cells that give one, in row-major order: a cell
  whose canvas gives no 2D context is skipped and produces no piece, and the cells after
  it are still sliced.
\<close>

theorem createPuzzlePieces_grid:
  assumes "pieces this = []"
    and "1 \<le> rows (options this)" and "1 \<le> cols (options this)"
    and "scaleFactor this = Num s"
    and "\<forall>row<rows (options this). \<forall>col<cols (options this). ok row col"
    and "pw = real (imageWidth (imageElement this)) * s / real (cols (options this))"
    and "ph = real (imageHeight (imageElement this)) * s / real (rows (options this))"
  shows "length (pieces (createPuzzlePieces ok this)) = rows (options this) * cols (options this)
    \<and> (\<forall>row<rows (options this). \<forall>col<cols (options this).
          pieces (createPuzzlePieces ok this) ! (row * cols (options this) + col) = makePiece this row col
          \<and> width (makePiece this row col) = Num pw
          \<and> height (makePiece this row col) = Num ph
          \<and> originalX (makePiece this row col) = Num (real col * pw)
          \<and> originalY (makePiece this row col) = Num (real row * ph)
          \<and> \<not> solved (makePiece this row col))
    \<and> (\<forall>x y. (\<exists>i<length (pieces (createPuzzlePieces ok this)).
                  inHomeRect (pieces (createPuzzlePieces ok this) ! i) x y)
           \<longleftrightarrow> 0 \<le> x \<and> x < real (imageWidth (imageElement this)) * s
               \<and> 0 \<le> y \<and> y < real (imageHeight (imageElement this)) * s)
    \<and> (\<forall>i j x y. i < length (pieces (createPuzzlePieces ok this))
           \<and> j < length (pieces (createPuzzlePieces ok this))
           \<and> inHomeRect (pieces (createPuzzlePieces ok this) ! i) x y
           \<and> inHomeRect (pieces (createPuzzlePieces ok this) ! j) x y \<longrightarrow> i = j)
    \<and> pieces (createPuzzlePieces anyOk this)
        = map (\<lambda>i. makePiece this (i div cols (options this)) (i mod cols (options this)))
            (filter (\<lambda>i. anyOk (i div cols (options this)) (i mod cols (options this)))
               [0..<rows (options this) * cols (options this)])
    \<and> length (pieces (createPuzzlePieces anyOk this))
        = length (filter (\<lambda>i. anyOk (i div cols (options this)) (i mod cols (options this)))
            [0..<rows (options this) * cols (options this)])"
proof -
  let ?R = "rows (options this)" and ?C = "cols (options this)"
  let ?ps = "pieces (createPuzzlePieces ok this)"
  have skip: "pieces (createPuzzlePieces anyOk this)
        = map (\<lambda>i. makePiece this (i div ?C) (i mod ?C))
            (filter (\<lambda>i. anyOk (i div ?C) (i mod ?C)) [0..<?R * ?C])"
    using assms(1) by (rule createPuzzlePieces_any)
  have skipLen: "length (pieces (createPuzzlePieces anyOk this))
        = length (filter (\<lambda>i. anyOk (i div ?C) (i mod ?C)) [0..<?R * ?C])"
    unfolding skip by simp
  have C0: "0 < ?C" and R0: "0 < ?R" using assms(2,3) by simp_all
  have ps: "?ps = map (\<lambda>i. makePiece this (i div ?C) (i mod ?C)) [0..<?R * ?C]"
    using assms(1,5) by (rule createPuzzlePieces_all)
  have len: "length ?ps = ?R * ?C" unfolding ps by simp
  have nth: "?ps ! i = makePiece this (i div ?C) (i mod ?C)" if "i < ?R * ?C" for i
    unfolding ps using that by simp
  have rect: "inHomeRect (makePiece this row col) x y \<longleftrightarrow>
         real col * pw \<le> x \<and> x < real col * pw + pw \<and> real row * ph \<le> y \<and> y < real row * ph + ph"
    for row col x y
    unfolding assms(6,7) by (rule inHomeRect_makePiece [OF assms(2,3,4)])
  have W: "real ?C * pw = real (imageWidth (imageElement this)) * s"
    unfolding assms(6) using C0 by simp
  have H: "real ?R * ph = real (imageHeight (imageElement this)) * s"
    unfolding assms(7) using R0 by simp
  have cells: "\<forall>row<?R. \<forall>col<?C.
          ?ps ! (row * ?C + col) = makePiece this row col
          \<and> width (makePiece this row col) = Num pw
          \<and> height (makePiece this row col) = Num ph
          \<and> originalX (makePiece this row col) = Num (real col * pw)
          \<and> originalY (makePiece this row col) = Num (real row * ph)
          \<and> \<not> solved (makePiece this row col)"
  proof (intro allI impI)
    fix row col assume r: "row < ?R" and c: "col < ?C"
    have "?ps ! (row * ?C + col) = makePiece this row col"
      using nth [OF cell_bound [OF r c]] cell_index [OF c] by simp
    then show "?ps ! (row * ?C + col) = makePiece this row col
          \<and> width (makePiece this row col) = Num pw
          \<and> height (makePiece this row col) = Num ph
          \<and> originalX (makePiece this row col) = Num (real col * pw)
          \<and> originalY (makePiece this row col) = Num (real row * ph)
          \<and> \<not> solved (makePiece this row col)"
      unfolding assms(6,7) using makePiece_fields [OF assms(2,3,4)] by simp
  qed
  have cover: "\<forall>x y. (\<exists>i<length ?ps. inHomeRect (?ps ! i) x y)
           \<longleftrightarrow> 0 \<le> x \<and> x < real (imageWidth (imageElement this)) * s
               \<and> 0 \<le> y \<and> y < real (imageHeight (imageElement this)) * s"
  proof (intro allI iffI)
    fix x y assume "\<exists>i<length ?ps. inHomeRect (?ps ! i) x y"
    then obtain i where i: "i < ?R * ?C" and in_i: "inHomeRect (?ps ! i) x y"
      using len by auto
    have c: "i mod ?C < ?C" using C0 by simp
    have r: "i div ?C < ?R" using i C0 by (simp add: less_mult_imp_div_less)
    note b = in_i [unfolded nth [OF i] rect]
    have "0 \<le> x \<and> x < real ?C * pw" using strip_inside [OF c] b by blast
    moreover have "0 \<le> y \<and> y < real ?R * ph" using strip_inside [OF r] b by blast
    ultimately show "0 \<le> x \<and> x < real (imageWidth (imageElement this)) * s
               \<and> 0 \<le> y \<and> y < real (imageHeight (imageElement this)) * s"
      unfolding W H by simp
  next
    fix x y assume a: "0 \<le> x \<and> x < real (imageWidth (imageElement this)) * s
               \<and> 0 \<le> y \<and> y < real (imageHeight (imageElement this)) * s"
    from a have "0 \<le> x" "x < real ?C * pw" unfolding W by simp_all
    from strip_exists [OF this] obtain col where c: "col < ?C"
      and cx: "real col * pw \<le> x \<and> x < real col * pw + pw" by blast
    from a have "0 \<le> y" "y < real ?R * ph" unfolding H by simp_all
    from strip_exists [OF this] obtain row where r: "row < ?R"
      and ry: "real row * ph \<le> y \<and> y < real row * ph + ph" by blast
    have i: "row * ?C + col < ?R * ?C" using cell_bound [OF r c] .
    have "inHomeRect (?ps ! (row * ?C + col)) x y"
      unfolding nth [OF i] cell_index [OF c] rect using cx ry by simp
    then show "\<exists>i<length ?ps. inHomeRect (?ps ! i) x y"
      using i len by auto
  qed
  have disjoint: "\<forall>i j x y. i < length ?ps \<and> j < length ?ps
           \<and> inHomeRect (?ps ! i) x y \<and> inHomeRect (?ps ! j) x y \<longrightarrow> i = j"
  proof (intro allI impI)
    fix i j x y
    assume a: "i < length ?ps \<and> j < length ?ps
           \<and> inHomeRect (?ps ! i) x y \<and> inHomeRect (?ps ! j) x y"
    then have i: "i < ?R * ?C" and j: "j < ?R * ?C" using len by simp_all
    from a have bi: "inHomeRect (?ps ! i) x y" and bj: "inHomeRect (?ps ! j) x y" by simp_all
    note ci = bi [unfolded nth [OF i] rect] and cj = bj [unfolded nth [OF j] rect]
    have "i mod ?C = nat \<lfloor>x / pw\<rfloor>" using strip_unique [of "i mod ?C" pw x] ci by blast
    moreover have "j mod ?C = nat \<lfloor>x / pw\<rfloor>" using strip_unique [of "j mod ?C" pw x] cj by blast
    ultimately have m: "i mod ?C = j mod ?C" by simp
    have "i div ?C = nat \<lfloor>y / ph\<rfloor>" using strip_unique [of "i div ?C" ph y] ci by blast
    moreover have "j div ?C = nat \<lfloor>y / ph\<rfloor>" using strip_unique [of "j div ?C" ph y] cj by blast
    ultimately have d: "i div ?C = j div ?C" by simp
    have "i = i div ?C * ?C + i mod ?C" by simp
    also have "\<dots> = j div ?C * ?C + j mod ?C" using m d by simp
    also have "\<dots> = j" by simp
    finally show "i = j" .
  qed
  show ?thesis using len cells cover disjoint skip skipLen by blast
qed


theorem createPuzzlePieces_grid_witness:
  "pieces (calculateScaleFactor (newPuzzle demoOptions demoImage)) = []
   \<and> 1 \<le> rows (options (calculateScaleFactor (newPuzzle demoOptions demoImage)))
   \<and> 1 \<le> cols (options (calculateScaleFactor (newPuzzle demoOptions demoImage)))
   \<and> scaleFactor (calculateScaleFactor (newPuzzle demoOptions demoImage)) = Num (1 / 2)
   \<and> length (pieces (createPuzzlePieces (\<lambda>row col. True)
         (calculateScaleFactor (newPuzzle demoOptions demoImage)))) = 4
   \<and> pieces (createPuzzlePieces (\<lambda>row col. True)
         (calculateScaleFactor (newPuzzle demoOptions demoImage))) ! 3
       = makePiece (calculateScaleFactor (newPuzzle demoOptions demoImage)) 1 1
   \<and> width (makePiece (calculateScaleFactor (newPuzzle demoOptions demoImage)) 1 1) = Num 200
   \<and> height (makePiece (calculateScaleFactor (newPuzzle demoOptions demoImage)) 1 1) = Num 150
   \<and> originalX (makePiece (calculateScaleFactor (newPuzzle demoOptions demoImage)) 1 1) = Num 200
   \<and> originalY (makePiece (calculateScaleFactor (newPuzzle demoOptions demoImage)) 1 1) = Num 150
   \<and> (\<exists>i<length (pieces (createPuzzlePieces (\<lambda>row col. True)
           (calculateScaleFactor (newPuzzle demoOptions demoImage)))).
         inHomeRect (pieces (createPuzzlePieces (\<lambda>row col. True)
           (calculateScaleFactor (newPuzzle demoOptions demoImage))) ! i) 250 100)
   \<and> pieces (createPuzzlePieces (\<lambda>row col. \<not> (row = 0 \<and> col = 0))
         (calculateScaleFactor (newPuzzle demoOptions demoImage)))
       = [makePiece (calculateScaleFactor (newPuzzle demoOptions demoImage)) 0 1,
          makePiece (calculateScaleFactor (newPuzzle demoOptions demoImage)) 1 0,
          makePiece (calculateScaleFactor (newPuzzle demoOptions demoImage)) 1 1]
   \<and> length (pieces (createPuzzlePieces (\<lambda>row col. \<not> (row = 0 \<and> col = 0))
         (calculateScaleFactor (newPuzzle demoOptions demoImage)))) = 3"
proof -
  let ?X = "calculateScaleFactor (newPuzzle demoOptions demoImage)"
  let ?ps = "pieces (createPuzzlePieces (\<lambda>row col. True) ?X)"
  have r: "1 \<le> rows (options ?X)" and c: "1 \<le> cols (options ?X)"
    by (simp_all add: demoSized)
  have ok: "\<forall>row<rows (options ?X). \<forall>col<cols (options ?X). True" by simp
  have pw: "(200::real) = real (imageWidth (imageElement ?X)) * (1 / 2) / real (cols (options ?X))"
    by (simp add: demoSized)
  have ph: "(150::real) = real (imageHeight (imageElement ?X)) * (1 / 2) / real (rows (options ?X))"
    by (simp add: demoSized)
  note h = createPuzzlePieces_grid [OF demoSized(1) r c demoSized(6) ok pw ph]
  from h have l: "length ?ps = rows (options ?X) * cols (options ?X)" by blast
  then have l4: "length ?ps = 4" by (simp add: demoSized)
  have r1: "1 < rows (options ?X)" and c1: "1 < cols (options ?X)" by (simp_all add: demoSized)
  from h r1 c1 have cell: "?ps ! (1 * cols (options ?X) + 1) = makePiece ?X 1 1
          \<and> width (makePiece ?X 1 1) = Num 200
          \<and> height (makePiece ?X 1 1) = Num 150
          \<and> originalX (makePiece ?X 1 1) = Num (real (1::nat) * 200)
          \<and> originalY (makePiece ?X 1 1) = Num (real (1::nat) * 150)"
    by blast
  then have cell': "?ps ! 3 = makePiece ?X 1 1
          \<and> width (makePiece ?X 1 1) = Num 200
          \<and> height (makePiece ?X 1 1) = Num 150
          \<and> originalX (makePiece ?X 1 1) = Num 200
          \<and> originalY (makePiece ?X 1 1) = Num 150"
    by (simp add: demoSized)
  have inside: "(0::real) \<le> 250 \<and> 250 < real (imageWidth (imageElement ?X)) * (1 / 2)
               \<and> (0::real) \<le> 100 \<and> 100 < real (imageHeight (imageElement ?X)) * (1 / 2)"
    by (simp add: demoSized)
  from h inside have ex: "\<exists>i<length ?ps. inHomeRect (?ps ! i) 250 100" by blast
  let ?skip = "pieces (createPuzzlePieces (\<lambda>row col. \<not> (row = 0 \<and> col = 0)) ?X)"
  note h' = createPuzzlePieces_grid [OF demoSized(1) r c demoSized(6) ok pw ph,
      where anyOk = "\<lambda>row col. \<not> (row = 0 \<and> col = 0)"]
  from h' have "?skip
        = map (\<lambda>i. makePiece ?X (i div cols (options ?X)) (i mod cols (options ?X)))
            (filter (\<lambda>i. \<not> (i div cols (options ?X) = 0 \<and> i mod cols (options ?X) = 0))
               [0..<rows (options ?X) * cols (options ?X)])"
    by blast
  then have sk: "?skip = [makePiece ?X 0 1, makePiece ?X 1 0, makePiece ?X 1 1]"
    by (simp add: demoSized upt4)
  then have sl: "length ?skip = 3" by simp
  from demoSized(1) r c demoSized(6) l4 cell' ex sk sl show ?thesis by blast
qed

text \<open>
  Claim C8 as stated gives \<open>rows * cols\<close> pieces for every grid. The loop skips a cell
  whose canvas gives no 2D context: in the 2 by 2 grid of the worked configuration, when
  the cell in row 0 and column 1 gives none, three pieces are produced, and the piece at
  index 1 is the one of row 1 and column 0.
\<close>

theorem createPuzzlePieces_grid_counterexample:
  "1 \<le> rows (options (calculateScaleFactor (newPuzzle demoOptions demoImage)))
   \<and> 1 \<le> cols (options (calculateScaleFactor (newPuzzle demoOptions demoImage)))
   \<and> rows (options (calculateScaleFactor (newPuzzle demoOptions demoImage)))
       * cols (options (calculateScaleFactor (newPuzzle demoOptions demoImage))) = 4
   \<and> length (pieces (createPuzzlePieces (\<lambda>row col. \<not> (row = 0 \<and> col = 1))
         (calculateScaleFactor (newPuzzle demoOptions demoImage)))) = 3
   \<and> originalX (pieces (createPuzzlePieces (\<lambda>row col. \<not> (row = 0 \<and> col = 1))
         (calculateScaleFactor (newPuzzle demoOptions demoImage))) ! 1) = Num 0
   \<and> originalY (pieces (createPuzzlePieces (\<lambda>row col. \<not> (row = 0 \<and> col = 1))
         (calculateScaleFactor (newPuzzle demoOptions demoImage))) ! 1) = Num 150"
  by (simp add: createPuzzlePieces_def demoSized upt2 makePiece_def Let_def)

section \<open>The duration the page passes\<close>

lemma parseInt_null: "parseInt None = NaN"
  by (simp add: parseInt_def parseIntString_def isWhiteSpace_def radixDigit_def digitValue_def Let_def)

lemma parseInt_5: "parseInt (Some ''5'') = Num 5"
  by (simp add: parseInt_def parseIntString_def isWhiteSpace_def radixDigit_def digitValue_def
      radixValue_def Let_def)

lemma parseInt_abc: "parseInt (Some ''abc'') = NaN"
  by (simp add: parseInt_def parseIntString_def isWhiteSpace_def radixDigit_def digitValue_def
      radixValue_def Let_def)

lemma parseInt_cases: "parseInt x = NaN \<or> (\<exists>n. parseInt x = Num n)"
  by (simp add: parseInt_def parseIntString_def Let_def)

lemma pageMinutes_eq: "pageMinutes query = parseInt (map_of query ''minutes'')"
  by (simp add: pageMinutes_def nullish_def)

lemma pageOptions_totalDuration:
  "totalDuration (pageOptions query iw ih) = js_mul (parseInt (map_of query ''minutes'')) (Num 60000)"
  by (simp add: pageOptions_def constructorOptions_def pageMinutes_eq)

text \<open>
  Claim C10. \<^verbatim>\<open>parseInt(null)\<close> is \<open>NaN\<close>, not \<open>null\<close>. For every query the minutes
  are what \<^verbatim>\<open>parseInt\<close> returns for the parameter: the fallback 2 of \<^verbatim>\<open>??\<close> never
  replaces it. So for a query with no \<open>minutes\<close> parameter the minutes are \<open>NaN\<close> and the
  puzzle is constructed with the total duration \<open>NaN * 60000 = NaN\<close>; the minutes are 2
  only when the parameter itself parses to 2; and the total duration is a number, the
  parsed minutes times 60000, exactly when the parameter parses to a number.
\<close>

theorem page_minutes_fallback:
  "parseInt None = NaN
   \<and> pageMinutes query = parseInt (map_of query ''minutes'')
   \<and> (map_of query ''minutes'' = None \<longrightarrow>
         pageMinutes query = NaN \<and> totalDuration (pageOptions query iw ih) = NaN)
   \<and> (pageMinutes query = Num 2 \<longrightarrow> parseInt (map_of query ''minutes'') = Num 2)
   \<and> (\<forall>n. parseInt (map_of query ''minutes'') = Num n \<longrightarrow>
         totalDuration (pageOptions query iw ih) = Num (n * 60000))
   \<and> (parseInt (map_of query ''minutes'') = NaN \<longrightarrow>
         totalDuration (pageOptions query iw ih) = NaN)
   \<and> (parseInt (map_of query ''minutes'') = NaN
        \<or> (\<exists>n. parseInt (map_of query ''minutes'') = Num n))"
  using parseInt_cases [of "map_of query ''minutes''"]
  by (auto simp: pageMinutes_eq pageOptions_totalDuration parseInt_null)

theorem page_minutes_fallback_witness:
  "map_of [(''theme'', ''cats'')] ''minutes'' = None
   \<and> pageMinutes [(''theme'', ''cats'')] = NaN
   \<and> totalDuration (pageOptions [(''theme'', ''cats'')] (Num 1280) (Num 720)) = NaN
   \<and> parseInt (map_of [(''minutes'', ''5'')] ''minutes'') = Num 5
   \<and> pageMinutes [(''minutes'', ''5'')] = Num 5
   \<and> totalDuration (pageOptions [(''minutes'', ''5'')] (Num 1280) (Num 720)) = Num 300000
   \<and> parseInt (map_of [(''minutes'', ''abc'')] ''minutes'') = NaN
   \<and> totalDuration (pageOptions [(''minutes'', ''abc'')] (Num 1280) (Num 720)) = NaN"
proof -
  have a: "map_of [(''theme'', ''cats'')] ''minutes'' = None" by simp
  note h1 = page_minutes_fallback [of "[(''theme'', ''cats'')]" "Num 1280" "Num 720"]
  from h1 a have b: "pageMinutes [(''theme'', ''cats'')] = NaN
      \<and> totalDuration (pageOptions [(''theme'', ''cats'')] (Num 1280) (Num 720)) = NaN"
    by blast
  have c: "parseInt (map_of [(''minutes'', ''5'')] ''minutes'') = Num 5"
    by (simp add: parseInt_5)
  note h2 = page_minutes_fallback [of "[(''minutes'', ''5'')]" "Num 1280" "Num 720"]
  from h2 c have "pageMinutes [(''minutes'', ''5'')] = Num 5
      \<and> totalDuration (pageOptions [(''minutes'', ''5'')] (Num 1280) (Num 720)) = Num (5 * 60000)"
    by metis
  then have d: "pageMinutes [(''minutes'', ''5'')] = Num 5
      \<and> totalDuration (pageOptions [(''minutes'', ''5'')] (Num 1280) (Num 720)) = Num 300000"
    by simp
  have e: "parseInt (map_of [(''minutes'', ''abc'')] ''minutes'') = NaN"
    by (simp add: parseInt_abc)
  note h3 = page_minutes_fallback [of "[(''minutes'', ''abc'')]" "Num 1280" "Num 720"]
  from h3 e have f: "totalDuration (pageOptions [(''minutes'', ''abc'')] (Num 1280) (Num 720)) = NaN"
    by blast
  from a b c d e f show ?thesis by blast
qed

end
